theory Spec2Isabelle
  imports Complex_Main "HOL-Library.Sublist" "HOL-Library.AList"
    "HOL-Library.List_Lexorder" "HOL-Library.Char_ord"
begin

section \<open>Thrown values and retry classification (src/utils/retryHelper.ts)\<close>

text \<open>
  A JavaScript operation can reject with any value. The model distinguishes what the
  source distinguishes: an instance of \<open>Error\<close> (its message, and the names of the
  constructors on its prototype chain other than \<open>Error\<close> itself), any other value on
  which a property can be read (its \<open>message\<close> property when it has one, and its
  rendering by \<open>String(...)\<close>), and the two values \<open>undefined\<close> and \<open>null\<close>, on
  which reading a property raises a TypeError.
\<close>

datatype thrown =
    Error_instance string "string list"
  | Other_value "string option" string
  | Undefined_value
  | Null_value


fun instanceof :: "thrown \<Rightarrow> string \<Rightarrow> bool" where
  "instanceof (Error_instance m cs) ErrorType = (ErrorType = ''Error'' \<or> ErrorType \<in> set cs)"
| "instanceof v ErrorType = False"

fun is_nullish :: "thrown \<Rightarrow> bool" where
  "is_nullish Undefined_value = True"
| "is_nullish Null_value = True"
| "is_nullish v = False"

text \<open>\<open>String(error)\<close>; for an Error instance with default name this is \<open>Error: message\<close>.\<close>

fun String_of :: "thrown \<Rightarrow> string" where
  "String_of (Error_instance m cs) = ''Error: '' @ m"
| "String_of (Other_value p s) = s"
| "String_of Undefined_value = ''undefined''"
| "String_of Null_value = ''null''"

text \<open>\<open>error.message\<close>: a TypeError on \<open>undefined\<close> and \<open>null\<close>, otherwise the property
  (\<open>None\<close> is JavaScript's \<open>undefined\<close>).\<close>

fun get_message :: "thrown \<Rightarrow> thrown + string option" where
  "get_message (Error_instance m cs) = Inr (Some m)"
| "get_message (Other_value p s) = Inr p"
| "get_message v =
     Inl (Error_instance (''Cannot read properties of '' @ String_of v @ '' (reading 'message')'')
            [''TypeError''])"

text \<open>
  What the JavaScript engine supplies to this module: \<open>String.prototype.toLowerCase\<close>,
  the product of two numbers and \<open>Math.pow\<close>. They are parameters of the model. A
  number is the real number that the double denotes (NaN and the infinities are not
  numbers of the model); the product and the power are the ones the engine returns, rounded
  as the engine rounds them. A string is a list of characters in which a character outside
  ASCII stands as the bytes of its UTF-8 encoding; this keeps the equality of strings and
  the occurrences of an ASCII word in a string.
\<close>

record engine =
  toLowerCase :: "string \<Rightarrow> string"
  multiply :: "real \<Rightarrow> real \<Rightarrow> real"
  Math_pow :: "real \<Rightarrow> int \<Rightarrow> real"

text \<open>\<open>String.prototype.includes\<close>.\<close>

definition str_includes :: "string \<Rightarrow> string \<Rightarrow> bool" where
  "str_includes s t = sublist t s"

definition network_message :: "string \<Rightarrow> bool" where
  "network_message message =
     (str_includes message ''network'' \<or>
      str_includes message ''timeout'' \<or>
      str_includes message ''econnrefused'' \<or>
      str_includes message ''enotfound'' \<or>
      str_includes message ''econnreset'' \<or>
      str_includes message ''etimedout'')"

fun isRetryableError :: "engine \<Rightarrow> thrown \<Rightarrow> string list \<Rightarrow> bool" where
  "isRetryableError js (Error_instance m cs) retryableErrors =
     (if network_message (toLowerCase js m) then True
      else if length retryableErrors > 0
        then list_ex (\<lambda>ErrorType. instanceof (Error_instance m cs) ErrorType) retryableErrors
      else True)"
| "isRetryableError js v retryableErrors = True"

section \<open>withRetry\<close>

record retry_opts =
  maxRetries :: int
  initialDelay :: real
  maxDelay :: real
  backoffFactor :: real
  retryableErrors :: "string list"
  onRetry :: "thrown \<Rightarrow> int \<Rightarrow> thrown option"

text \<open>The caller's \<open>RetryOptions\<close>: every field is optional, \<open>None\<close> is an absent key.
  An options object that carries a key with the value \<open>undefined\<close> is not a value of
  this type; \<open>maxRetries\<close> is a whole number.\<close>

record RetryOptions =
  maxRetries_opt :: "int option"
  initialDelay_opt :: "real option"
  maxDelay_opt :: "real option"
  backoffFactor_opt :: "real option"
  retryableErrors_opt :: "string list option"
  onRetry_opt :: "(thrown \<Rightarrow> int \<Rightarrow> thrown option) option"

definition DEFAULT_OPTIONS :: retry_opts where
  "DEFAULT_OPTIONS =
     \<lparr> maxRetries = 3, initialDelay = 1000, maxDelay = 30000, backoffFactor = 2,
       retryableErrors = [], onRetry = (\<lambda>e n. None) \<rparr>"

definition no_options :: RetryOptions where
  "no_options =
     \<lparr> maxRetries_opt = None, initialDelay_opt = None, maxDelay_opt = None,
       backoffFactor_opt = None, retryableErrors_opt = None, onRetry_opt = None \<rparr>"

text \<open>The spread \<open>{ ...DEFAULT_OPTIONS, ...options }\<close>.\<close>

definition spread :: "retry_opts \<Rightarrow> RetryOptions \<Rightarrow> retry_opts" where
  "spread d options =
     \<lparr> maxRetries = (case maxRetries_opt options of Some x \<Rightarrow> x | None \<Rightarrow> maxRetries d),
       initialDelay = (case initialDelay_opt options of Some x \<Rightarrow> x | None \<Rightarrow> initialDelay d),
       maxDelay = (case maxDelay_opt options of Some x \<Rightarrow> x | None \<Rightarrow> maxDelay d),
       backoffFactor = (case backoffFactor_opt options of Some x \<Rightarrow> x | None \<Rightarrow> backoffFactor d),
       retryableErrors =
         (case retryableErrors_opt options of Some x \<Rightarrow> x | None \<Rightarrow> retryableErrors d),
       onRetry = (case onRetry_opt options of Some x \<Rightarrow> x | None \<Rightarrow> onRetry d) \<rparr>"

definition RetryConfigs_network :: RetryOptions where
  "RetryConfigs_network =
     no_options \<lparr> maxRetries_opt := Some 5, initialDelay_opt := Some 1000,
                  maxDelay_opt := Some 30000, backoffFactor_opt := Some 2 \<rparr>"

definition RetryConfigs_database :: RetryOptions where
  "RetryConfigs_database =
     no_options \<lparr> maxRetries_opt := Some 3, initialDelay_opt := Some 500,
                  maxDelay_opt := Some 5000, backoffFactor_opt := Some (3 / 2) \<rparr>"



text \<open>
  The wrapped operation \<open>fn\<close> is effectful: a call takes the state of the world and
  returns the value it resolves with (\<open>Inr\<close>) or the value it rejects with (\<open>Inl\<close>),
  and the next state of the world. What \<open>withRetry\<close> does besides calling \<open>fn\<close> is
  recorded as a list of events, in the order of the source.
\<close>

type_synonym ('w, 'a) operation = "'w \<Rightarrow> (thrown + 'a) \<times> 'w"

datatype event =
    Invoked
  | Logger_error
  | Logger_warn
  | Called_onRetry thrown int
  | Slept real

text \<open>\<open>Math.min(opts.initialDelay * Math.pow(opts.backoffFactor, attempt), opts.maxDelay)\<close>\<close>

definition backoff_delay :: "engine \<Rightarrow> retry_opts \<Rightarrow> int \<Rightarrow> real" where
  "backoff_delay js opts attempt =
     min (multiply js (initialDelay opts) (Math_pow js (backoffFactor opts) attempt)) (maxDelay opts)"

text \<open>
  The \<open>for\<close> loop from \<open>attempt\<close> on, with the current \<open>lastError\<close>. In the handler,
  \<open>lastError.message\<close> is read for the log entry after the classification, on both
  paths.
\<close>

function withRetry_loop ::
  "engine \<Rightarrow> ('w, 'a) operation \<Rightarrow> retry_opts \<Rightarrow> int \<Rightarrow> thrown \<Rightarrow> 'w
     \<Rightarrow> (thrown + 'a) \<times> event list \<times> 'w"
where
  "withRetry_loop js fn opts attempt lastError w =
     (if attempt \<le> maxRetries opts then
        (case fn w of
           (Inr v, w') \<Rightarrow> (Inr v, [Invoked], w')
         | (Inl error, w') \<Rightarrow>
             if \<not> isRetryableError js error (retryableErrors opts) then (Inl error, [Invoked], w')
             else
               (case get_message error of
                  Inl type_error \<Rightarrow> (Inl type_error, [Invoked], w')
                | Inr message \<Rightarrow>
                    if attempt = maxRetries opts then (Inl error, [Invoked, Logger_error], w')
                    else
                      (case onRetry opts error (attempt + 1) of
                         Some e \<Rightarrow>
                           (Inl e, [Invoked, Logger_warn, Called_onRetry error (attempt + 1)], w')
                       | None \<Rightarrow>
                           (case withRetry_loop js fn opts (attempt + 1) error w' of
                              (r, t, w'') \<Rightarrow>
                                (r,
                                 [Invoked, Logger_warn, Called_onRetry error (attempt + 1),
                                  Slept (backoff_delay js opts attempt)] @ t,
                                 w'')))))
      else (Inl lastError, [], w))"
  by pat_completeness auto
termination
  by (relation "measure (\<lambda>(js, fn, opts, attempt, lastError, w). nat (maxRetries opts + 1 - attempt))")
     auto

definition withRetry ::
  "engine \<Rightarrow> ('w, 'a) operation \<Rightarrow> RetryOptions \<Rightarrow> 'w \<Rightarrow> (thrown + 'a) \<times> event list \<times> 'w"
where
  "withRetry js fn options w =
     withRetry_loop js fn (spread DEFAULT_OPTIONS options) 0 Undefined_value w"

definition invocations :: "event list \<Rightarrow> nat" where
  "invocations t = length (filter (\<lambda>e. e = Invoked) t)"

subsection \<open>Operations used to state the retry properties\<close>

text \<open>\<open>fn\<close>, called repeatedly from the world \<open>w\<close>, rejects with the values \<open>es\<close> in order.\<close>

fun fails_with :: "('w, 'a) operation \<Rightarrow> 'w \<Rightarrow> thrown list \<Rightarrow> bool" where
  "fails_with fn w [] = True"
| "fails_with fn w (e # es) = (fst (fn w) = Inl e \<and> fails_with fn (snd (fn w)) es)"


text \<open>The world after \<open>n\<close> calls of \<open>fn\<close>.\<close>

fun world_after :: "('w, 'a) operation \<Rightarrow> nat \<Rightarrow> 'w \<Rightarrow> 'w" where
  "world_after fn 0 w = w"
| "world_after fn (Suc n) w = world_after fn n (snd (fn w))"

text \<open>
  A failure that the handler retries: an error value (not \<open>undefined\<close> or \<open>null\<close>, whose
  \<open>message\<close> the handler could not read for its log entry) that \<open>isRetryableError\<close>
  classifies as retryable.
\<close>

definition retryable_failure :: "engine \<Rightarrow> retry_opts \<Rightarrow> thrown \<Rightarrow> bool" where
  "retryable_failure js opts e = (isRetryableError js e (retryableErrors opts) \<and> \<not> is_nullish e)"

text \<open>The events of the retried attempts \<open>attempt, attempt + 1, ...\<close> that failed with \<open>es\<close>.\<close>

fun retry_events :: "engine \<Rightarrow> retry_opts \<Rightarrow> int \<Rightarrow> thrown list \<Rightarrow> event list" where
  "retry_events js opts attempt [] = []"
| "retry_events js opts attempt (e # es) =
     [Invoked, Logger_warn, Called_onRetry e (attempt + 1), Slept (backoff_delay js opts attempt)]
     @ retry_events js opts (attempt + 1) es"



text \<open>
  An engine for the examples: it lower-cases the ASCII letters and computes without
  rounding. Every engine agrees with it on the strings and numbers of the examples (ASCII
  strings; whole numbers of milliseconds and powers of 2 and of 1.5 that are
  representable).
\<close>

definition ascii_lower :: "char \<Rightarrow> char" where
  "ascii_lower c =
     (let n = (of_char c :: nat) in if 65 \<le> n \<and> n \<le> 90 then char_of (n + 32) else c)"

definition plain_engine :: engine where
  "plain_engine =
     \<lparr> toLowerCase = map ascii_lower, multiply = (\<lambda>x y. x * y), Math_pow = (\<lambda>b a. b ^ nat a) \<rparr>"



section \<open>CircuitBreaker (src/utils/retryHelper.ts)\<close>

datatype breaker_state = Closed | Open | Half_open

record CircuitBreaker =
  failures :: int
  lastFailureTime :: int
  state :: breaker_state
  threshold :: int
  timeout :: int







definition reset :: "CircuitBreaker \<Rightarrow> CircuitBreaker" where
  "reset cb = cb \<lparr> failures := 0, state := Closed, lastFailureTime := 0 \<rparr>"




text \<open>
  What holds of a breaker between calls: it is closed or open, its failure count is not
  negative, and when it is open the count has reached the threshold.
\<close>

definition breaker_inv :: "CircuitBreaker \<Rightarrow> bool" where
  "breaker_inv cb =
     (0 \<le> failures cb \<and> state cb \<noteq> Half_open \<and> (state cb = Open \<longrightarrow> threshold cb \<le> failures cb))"


section \<open>RateLimiter (src/utils/rateLimiter.ts)\<close>

text \<open>
  Token counts are JavaScript numbers, modelled as real numbers; times are the integer
  milliseconds of \<open>Date.now()\<close>. A domain bucket has the two fields \<open>tokens\<close> and
  \<open>lastRefill\<close>; the limiter has the same two fields for the global bucket.
\<close>

record bucket =
  tokens :: real
  lastRefill :: int

record RateLimiter = bucket +
  maxTokens :: real
  refillRate :: real
  domainBuckets :: "string \<rightharpoonup> bucket"

text \<open>The constructor, called when the clock reads \<open>now\<close>; the defaults are 30 and 0.5.\<close>

definition new_RateLimiter :: "real \<Rightarrow> real \<Rightarrow> int \<Rightarrow> RateLimiter" where
  "new_RateLimiter m r now =
     \<lparr> tokens = m, lastRefill = now, maxTokens = m, refillRate = r, domainBuckets = Map.empty \<rparr>"

definition refill :: "int \<Rightarrow> RateLimiter \<Rightarrow> RateLimiter" where
  "refill now rl =
     (let timePassed = real_of_int (now - lastRefill rl) / 1000;
          tokensToAdd = timePassed * refillRate rl
      in rl \<lparr> tokens := min (maxTokens rl) (tokens rl + tokensToAdd), lastRefill := now \<rparr>)"

definition refillDomain :: "int \<Rightarrow> string \<Rightarrow> RateLimiter \<Rightarrow> RateLimiter" where
  "refillDomain now domain rl =
     (case domainBuckets rl domain of
        None \<Rightarrow> rl
      | Some b \<Rightarrow>
          (let timePassed = real_of_int (now - lastRefill b) / 1000;
               tokensToAdd = timePassed * refillRate rl
           in rl \<lparr> domainBuckets := (domainBuckets rl)
                (domain \<mapsto> b \<lparr> tokens := min (maxTokens rl) (tokens b + tokensToAdd),
                                lastRefill := now \<rparr>) \<rparr>))"

text \<open>
  The argument of \<open>delay\<close>: \<open>Math.ceil(waitTime)\<close>, which is \<open>Infinity\<close> when
  \<open>refillRate\<close> is 0 (the division of a positive number by zero).
\<close>

datatype millis = Millis int | Infinity

definition wait_millis :: "real \<Rightarrow> real \<Rightarrow> millis" where
  "wait_millis tokensNeeded rate =
     (if rate = 0 then Infinity else Millis (\<lceil>tokensNeeded / rate * 1000\<rceil>))"

text \<open>
  What a call does is recorded as events: a wait on a timer, the deduction of a token from
  the bucket of a domain and from the global bucket, each with the tokens the bucket held
  when the token was taken.
\<close>

datatype limiter_event = Delayed millis | Domain_token string real | Global_token real

text \<open>
  The environment is a world \<open>'w\<close> with its clock (\<open>Date.now()\<close> reads \<open>clock w\<close>) and its
  timers (\<open>delay ms w\<close> is the world in which the timer of \<open>ms\<close> milliseconds has fired).
  The two \<open>while\<close> loops may run forever, so they take fuel: the number of tests of the
  loop condition allowed. \<open>None\<close> is a call that has not returned within the fuel.
\<close>

fun wait_domain ::
  "nat \<Rightarrow> ('w \<Rightarrow> int) \<Rightarrow> (millis \<Rightarrow> 'w \<Rightarrow> 'w) \<Rightarrow> string \<Rightarrow> RateLimiter \<Rightarrow> 'w
     \<Rightarrow> (thrown + RateLimiter \<times> 'w \<times> limiter_event list) option"
where
  "wait_domain 0 clock delay domain rl w = None"
| "wait_domain (Suc fuel) clock delay domain rl w =
     (case domainBuckets rl domain of
        None \<Rightarrow> Some (Inl (Error_instance ''Cannot read properties of undefined (reading 'tokens')''
                 [''TypeError'']))
      | Some b \<Rightarrow>
          if tokens b < 1 then
            (let tokensNeeded = 1 - tokens b;
                 ms = wait_millis tokensNeeded (refillRate rl);
                 w' = delay ms w
             in case wait_domain fuel clock delay domain (refillDomain (clock w') domain rl) w' of
                  None \<Rightarrow> None
                | Some (Inl e) \<Rightarrow> Some (Inl e)
                | Some (Inr (rl', w'', evs)) \<Rightarrow> Some (Inr (rl', w'', Delayed ms # evs)))
          else
            Some (Inr (rl \<lparr> domainBuckets := (domainBuckets rl)(domain \<mapsto> b \<lparr> tokens := tokens b - 1 \<rparr>) \<rparr>,
                       w, [Domain_token domain (tokens b)])))"

fun wait_global ::
  "nat \<Rightarrow> ('w \<Rightarrow> int) \<Rightarrow> (millis \<Rightarrow> 'w \<Rightarrow> 'w) \<Rightarrow> RateLimiter \<Rightarrow> 'w
     \<Rightarrow> (RateLimiter \<times> 'w \<times> limiter_event list) option"
where
  "wait_global 0 clock delay rl w = None"
| "wait_global (Suc fuel) clock delay rl w =
     (if tokens rl < 1 then
        (let tokensNeeded = 1 - tokens rl;
             ms = wait_millis tokensNeeded (refillRate rl);
             w' = delay ms w
         in case wait_global fuel clock delay (refill (clock w') rl) w' of
              None \<Rightarrow> None
            | Some (rl', w'', evs) \<Rightarrow> Some (rl', w'', Delayed ms # evs))
      else Some (rl \<lparr> tokens := tokens rl - 1 \<rparr>, w, [Global_token (tokens rl)]))"

text \<open>
  The first part of \<open>waitForToken\<close>: the domain of the URL. \<open>hostname url\<close> is the
  \<open>hostname\<close> of \<open>new URL(url)\<close>, \<open>None\<close> when the constructor throws. An absent or empty
  \<open>url\<close> is falsy; the bucket is created for any parsed hostname.
\<close>

definition url_domain ::
  "(string \<Rightarrow> string option) \<Rightarrow> int \<Rightarrow> string option \<Rightarrow> RateLimiter \<Rightarrow> string option \<times> RateLimiter"
where
  "url_domain hostname now url rl =
     (case url of
        None \<Rightarrow> (None, rl)
      | Some u \<Rightarrow>
          if u = [] then (None, rl)
          else
            (case hostname u of
               None \<Rightarrow> (None, rl)
             | Some domain \<Rightarrow>
                 (Some domain,
                  if domainBuckets rl domain = None
                  then rl \<lparr> domainBuckets := (domainBuckets rl)
                         (domain \<mapsto> \<lparr> tokens = maxTokens rl, lastRefill = now \<rparr>) \<rparr>
                  else rl)))"

text \<open>\<open>waitForToken\<close>: the domain bucket first (\<open>if (domain)\<close> is false for the empty
  string too), then the global bucket.\<close>

definition waitForToken ::
  "nat \<Rightarrow> ('w \<Rightarrow> int) \<Rightarrow> (millis \<Rightarrow> 'w \<Rightarrow> 'w) \<Rightarrow> (string \<Rightarrow> string option) \<Rightarrow> string option
     \<Rightarrow> RateLimiter \<Rightarrow> 'w \<Rightarrow> (thrown + RateLimiter \<times> 'w \<times> limiter_event list) option"
where
  "waitForToken fuel clock delay hostname url rl w =
     (case url_domain hostname (clock w) url rl of
        (domain, rl0) \<Rightarrow>
          (case (case domain of
                   None \<Rightarrow> Some (Inr (rl0, w, []))
                 | Some d \<Rightarrow>
                     if d = [] then Some (Inr (rl0, w, []))
                     else wait_domain fuel clock delay d (refillDomain (clock w) d rl0) w) of
             None \<Rightarrow> None
           | Some (Inl e) \<Rightarrow> Some (Inl e)
           | Some (Inr (rl1, w1, evs1)) \<Rightarrow>
               (case wait_global fuel clock delay (refill (clock w1) rl1) w1 of
                  None \<Rightarrow> None
                | Some (rl2, w2, evs2) \<Rightarrow> Some (Inr (rl2, w2, evs1 @ evs2)))))"

definition getTokenCount :: "int \<Rightarrow> RateLimiter \<Rightarrow> real \<times> RateLimiter" where
  "getTokenCount now rl = (tokens (refill now rl), refill now rl)"

definition getDomainTokenCount :: "int \<Rightarrow> string \<Rightarrow> RateLimiter \<Rightarrow> real \<times> RateLimiter" where
  "getDomainTokenCount now domain rl =
     (case domainBuckets rl domain of
        None \<Rightarrow> (maxTokens rl, rl)
      | Some b \<Rightarrow>
          (case domainBuckets (refillDomain now domain rl) domain of
             Some b' \<Rightarrow> (tokens b', refillDomain now domain rl)
           | None \<Rightarrow> (maxTokens rl, rl)))"

definition reset_limiter :: "int \<Rightarrow> RateLimiter \<Rightarrow> RateLimiter" where
  "reset_limiter now rl = rl \<lparr> tokens := maxTokens rl, lastRefill := now, domainBuckets := Map.empty \<rparr>"

text \<open>The public operations of a limiter, and a sequence of them run one after the other.\<close>

datatype limiter_op =
    WaitForToken "string option"
  | AddDelay int
  | GetTokenCount
  | GetDomainTokenCount string
  | Reset

fun limiter_step ::
  "nat \<Rightarrow> ('w \<Rightarrow> int) \<Rightarrow> (millis \<Rightarrow> 'w \<Rightarrow> 'w) \<Rightarrow> (string \<Rightarrow> string option) \<Rightarrow> limiter_op
     \<Rightarrow> RateLimiter \<Rightarrow> 'w \<Rightarrow> (RateLimiter \<times> 'w) option"
where
  "limiter_step fuel clock delay hostname (WaitForToken url) rl w =
     (case waitForToken fuel clock delay hostname url rl w of
        Some (Inr (rl', w', evs)) \<Rightarrow> Some (rl', w')
      | _ \<Rightarrow> None)"
| "limiter_step fuel clock delay hostname (AddDelay ms) rl w = Some (rl, delay (Millis ms) w)"
| "limiter_step fuel clock delay hostname GetTokenCount rl w =
     Some (snd (getTokenCount (clock w) rl), w)"
| "limiter_step fuel clock delay hostname (GetDomainTokenCount d) rl w =
     Some (snd (getDomainTokenCount (clock w) d rl), w)"
| "limiter_step fuel clock delay hostname Reset rl w = Some (reset_limiter (clock w) rl, w)"

fun limiter_run ::
  "nat \<Rightarrow> ('w \<Rightarrow> int) \<Rightarrow> (millis \<Rightarrow> 'w \<Rightarrow> 'w) \<Rightarrow> (string \<Rightarrow> string option) \<Rightarrow> limiter_op list
     \<Rightarrow> RateLimiter \<Rightarrow> 'w \<Rightarrow> (RateLimiter \<times> 'w) option"
where
  "limiter_run fuel clock delay hostname [] rl w = Some (rl, w)"
| "limiter_run fuel clock delay hostname (x # xs) rl w =
     (case limiter_step fuel clock delay hostname x rl w of
        None \<Rightarrow> None
      | Some (rl', w') \<Rightarrow> limiter_run fuel clock delay hostname xs rl' w')"

text \<open>No bucket holds more than \<open>maxTokens\<close>.\<close>

definition within_capacity :: "RateLimiter \<Rightarrow> bool" where
  "within_capacity rl =
     (tokens rl \<le> maxTokens rl \<and>
      (\<forall>d b. domainBuckets rl d = Some b \<longrightarrow> tokens b \<le> maxTokens rl))"

text \<open>
  A world that is the time in milliseconds, with timers that fire exactly on time (one
  millisecond for an infinite delay), and a \<open>hostname\<close> that knows one URL.
\<close>

definition punctual :: "millis \<Rightarrow> int \<Rightarrow> int" where
  "punctual ms t = (case ms of Millis n \<Rightarrow> t + n | Infinity \<Rightarrow> t + 1)"

definition example_hostname :: "string \<Rightarrow> string option" where
  "example_hostname u = (if u = ''https://www.example.org/staff'' then Some ''www.example.org'' else None)"

section \<open>The stored data (src/types/index.ts, src/utils/progressTracker.ts)\<close>

datatype status = Pending | Processing | Completed | Failed

record District =
  district_id :: string
  cdCode :: string
  name :: string
  county :: string
  district_type :: string
  website :: "string option"
  status :: status
  processedAt :: "int option"
  error :: "string option"

datatype EmailStatus = Verified | Invalid | Greylist_retry | Unverified | Generated

record Contact =
  firstName :: string
  lastName :: string
  title :: string
  email :: "string option"
  emailStatus :: "EmailStatus option"
  department :: "string option"
  phone :: "string option"
  confidence :: "int option"

record DistrictContacts =
  dc_districtId :: string
  dc_districtName :: string
  dc_county :: string
  dc_website :: "string option"
  contacts :: "Contact list"
  scrapedAt :: int

datatype run_status = Running | Run_completed | Run_failed | Stopped

record Stats =
  total :: int
  pending :: int
  processing :: int
  completed :: int
  failed :: int

record error_entry =
  err_districtId :: string
  err_districtName :: string
  err_error :: string
  err_timestamp :: int

record current_district =
  cur_id :: string
  cur_name :: string
  cur_startedAt :: int

record ScrapeProgress =
  runId :: string
  startedAt :: int
  updatedAt :: int
  completedAt :: "int option"
  run_status :: run_status
  stats :: Stats
  errors :: "error_entry list"
  currentDistrict :: "current_district option"
  fatalError :: "string option"

datatype log_status = Success | Log_failed | Skipped

record log_details =
  details_domain :: "string option"
  verifiedEmails :: nat
  generatedEmails :: nat

record DistrictLog =
  log_districtId :: string
  log_districtName :: string
  log_runId :: string
  log_status :: log_status
  log_startedAt :: int
  log_completedAt :: int
  duration :: int
  contactsFound :: int
  log_error :: "string option"
  details :: "log_details option"

text \<open>
  The Firestore database: four collections. A collection with document ids chosen by the
  program is a list of (id, document) pairs with distinct ids; \<open>district_logs\<close>, whose
  ids Firestore generates, is the list of its documents.
\<close>

record Firestore =
  districts :: "(string \<times> District) list"
  district_logs :: "DistrictLog list"
  scrape_progress :: "(string \<times> ScrapeProgress) list"
  districtContacts :: "(string \<times> DistrictContacts) list"

text \<open>\<open>doc(k).set(v)\<close> writes or replaces the document; \<open>doc(k).update(...)\<close> changes an
  existing document and is rejected with NOT_FOUND when there is none.\<close>

definition doc_set :: "string \<Rightarrow> 'a \<Rightarrow> (string \<times> 'a) list \<Rightarrow> (string \<times> 'a) list" where
  "doc_set k v docs = AList.update k v docs"

definition not_found :: "string \<Rightarrow> thrown" where
  "not_found k = Error_instance (''5 NOT_FOUND: No document to update: '' @ k) []"

definition doc_update ::
  "string \<Rightarrow> ('a \<Rightarrow> 'a) \<Rightarrow> (string \<times> 'a) list \<Rightarrow> thrown + (string \<times> 'a) list"
where
  "doc_update k f docs =
     (case map_of docs k of
        None \<Rightarrow> Inl (not_found k)
      | Some v \<Rightarrow> Inr (AList.update k (f v) docs))"

section \<open>ProgressTracker (src/utils/progressTracker.ts)\<close>

text \<open>
  A tracker is its \<open>runId\<close>; the database is passed in and returned. \<open>now\<close> is the
  reading of the clock (\<open>new Date()\<close>, the server timestamp). An operation returns the
  value it raises, if any, and the database it leaves.
\<close>

definition initializeRun :: "string \<Rightarrow> int \<Rightarrow> int \<Rightarrow> Firestore \<Rightarrow> Firestore" where
  "initializeRun rid now totalDistricts db =
     db \<lparr> scrape_progress := doc_set rid
       \<lparr> runId = rid, startedAt = now, updatedAt = now, completedAt = None,
         run_status = Running,
         stats = \<lparr> total = totalDistricts, pending = totalDistricts, processing = 0,
                   completed = 0, failed = 0 \<rparr>,
         errors = [], currentDistrict = None, fatalError = None \<rparr>
       (scrape_progress db) \<rparr>"

text \<open>\<open>progressDoc.update(...)\<close> with the change \<open>f\<close> of the document.\<close>

definition update_progress ::
  "string \<Rightarrow> (ScrapeProgress \<Rightarrow> ScrapeProgress) \<Rightarrow> Firestore \<Rightarrow> thrown option \<times> Firestore"
where
  "update_progress rid f db =
     (case doc_update rid f (scrape_progress db) of
        Inl e \<Rightarrow> (Some e, db)
      | Inr docs \<Rightarrow> (None, db \<lparr> scrape_progress := docs \<rparr>))"

definition startDistrict :: "string \<Rightarrow> int \<Rightarrow> District \<Rightarrow> Firestore \<Rightarrow> thrown option \<times> Firestore" where
  "startDistrict rid now district db =
     update_progress rid
       (\<lambda>p. p \<lparr> currentDistrict :=
                  Some \<lparr> cur_id = district_id district, cur_name = name district,
                         cur_startedAt = now \<rparr>,
                stats := (stats p) \<lparr> processing := processing (stats p) + 1,
                                     pending := pending (stats p) - 1 \<rparr>,
                updatedAt := now \<rparr>)
       db"

definition completeDistrict ::
  "string \<Rightarrow> int \<Rightarrow> District \<Rightarrow> int \<Rightarrow> log_details option \<Rightarrow> Firestore \<Rightarrow> thrown option \<times> Firestore"
where
  "completeDistrict rid now district found det db =
     (let log = \<lparr> log_districtId = district_id district, log_districtName = name district,
                   log_runId = rid, log_status = Success, log_startedAt = now,
                   log_completedAt = now, duration = now - now, contactsFound = found,
                   log_error = None, details = det \<rparr>;
          db1 = db \<lparr> district_logs := district_logs db @ [log] \<rparr>
      in update_progress rid
           (\<lambda>p. p \<lparr> currentDistrict := None,
                    stats := (stats p) \<lparr> processing := processing (stats p) - 1,
                                         completed := completed (stats p) + 1 \<rparr>,
                    updatedAt := now \<rparr>)
           db1)"

text \<open>\<open>FieldValue.arrayUnion\<close> adds the element unless the array holds an equal one.\<close>

definition arrayUnion :: "'a \<Rightarrow> 'a list \<Rightarrow> 'a list" where
  "arrayUnion x xs = (if x \<in> set xs then xs else xs @ [x])"

definition failDistrict :: "string \<Rightarrow> int \<Rightarrow> District \<Rightarrow> string \<Rightarrow> Firestore \<Rightarrow> thrown option \<times> Firestore" where
  "failDistrict rid now district err db =
     (let errorEntry = \<lparr> err_districtId = district_id district, err_districtName = name district,
                          err_error = err, err_timestamp = now \<rparr>;
          log = \<lparr> log_districtId = district_id district, log_districtName = name district,
                   log_runId = rid, log_status = Log_failed, log_startedAt = now,
                   log_completedAt = now, duration = 0, contactsFound = 0,
                   log_error = Some err, details = None \<rparr>;
          db1 = db \<lparr> district_logs := district_logs db @ [log] \<rparr>
      in update_progress rid
           (\<lambda>p. p \<lparr> currentDistrict := None,
                    stats := (stats p) \<lparr> processing := processing (stats p) - 1,
                                         failed := failed (stats p) + 1 \<rparr>,
                    errors := arrayUnion errorEntry (errors p),
                    updatedAt := now \<rparr>)
           db1)"

definition completeRun :: "string \<Rightarrow> int \<Rightarrow> Firestore \<Rightarrow> thrown option \<times> Firestore" where
  "completeRun rid now db =
     update_progress rid
       (\<lambda>p. p \<lparr> run_status := Run_completed, completedAt := Some now, updatedAt := now \<rparr>) db"

definition failRun :: "string \<Rightarrow> int \<Rightarrow> string \<Rightarrow> Firestore \<Rightarrow> thrown option \<times> Firestore" where
  "failRun rid now err db =
     update_progress rid
       (\<lambda>p. p \<lparr> run_status := Run_failed, completedAt := Some now, updatedAt := now,
                fatalError := Some err \<rparr>) db"

definition getProgress :: "string \<Rightarrow> Firestore \<Rightarrow> ScrapeProgress option" where
  "getProgress rid db = map_of (scrape_progress db) rid"

text \<open>
  \<open>getUnprocessedDistricts\<close>: the ids of the \<open>districts\<close> documents whose status is
  \<open>pending\<close> or \<open>processing\<close>, without the \<open>districtId\<close>s of the logs of this run with
  status \<open>success\<close>.
\<close>

definition getUnprocessedDistricts :: "string \<Rightarrow> Firestore \<Rightarrow> string list" where
  "getUnprocessedDistricts rid db =
     (let districtsSnapshot = filter (\<lambda>(k, d). status d \<in> set [Pending, Processing]) (districts db);
          logsSnapshot = filter (\<lambda>l. log_runId l = rid \<and> log_status l = Success) (district_logs db);
          processedIds = set (map log_districtId logsSnapshot)
      in filter (\<lambda>k. k \<notin> processedIds) (map fst districtsSnapshot))"

definition isDistrictProcessed :: "string \<Rightarrow> string \<Rightarrow> Firestore \<Rightarrow> bool" where
  "isDistrictProcessed rid districtId db =
     (filter (\<lambda>l. log_runId l = rid \<and> log_districtId l = districtId \<and> log_status l = Success)
        (district_logs db) \<noteq> [])"

text \<open>The tracker's operations on the counters, and a sequence of them on one run.\<close>

datatype tracker_op =
    StartDistrict District
  | CompleteDistrict District int "log_details option"
  | FailDistrict District string

fun tracker_step :: "string \<Rightarrow> int \<Rightarrow> tracker_op \<Rightarrow> Firestore \<Rightarrow> thrown option \<times> Firestore" where
  "tracker_step rid now (StartDistrict d) db = startDistrict rid now d db"
| "tracker_step rid now (CompleteDistrict d n det) db = completeDistrict rid now d n det db"
| "tracker_step rid now (FailDistrict d err) db = failDistrict rid now d err db"

text \<open>Each operation of the list at its own time; an operation that raises leaves the
  database as it says and the next one is run all the same.\<close>

fun tracker_run :: "string \<Rightarrow> (int \<times> tracker_op) list \<Rightarrow> Firestore \<Rightarrow> Firestore" where
  "tracker_run rid [] db = db"
| "tracker_run rid ((now, x) # xs) db = tracker_run rid xs (snd (tracker_step rid now x db))"

definition conserved :: "Stats \<Rightarrow> bool" where
  "conserved s = (pending s + processing s + completed s + failed s = total s)"

text \<open>The kinds of operation, to count them in a sequence.\<close>

fun is_start :: "tracker_op \<Rightarrow> bool" where
  "is_start (StartDistrict d) = True"
| "is_start x = False"

fun is_complete :: "tracker_op \<Rightarrow> bool" where
  "is_complete (CompleteDistrict d n det) = True"
| "is_complete x = False"

fun is_fail :: "tracker_op \<Rightarrow> bool" where
  "is_fail (FailDistrict d err) = True"
| "is_fail x = False"

definition count_ops :: "(tracker_op \<Rightarrow> bool) \<Rightarrow> (int \<times> tracker_op) list \<Rightarrow> int" where
  "count_ops kind xs = int (length (filter (\<lambda>(now, x). kind x) xs))"

section \<open>The districts in Firestore (src/utils/firebase.ts)\<close>

definition updateDistrictStatus ::
  "int \<Rightarrow> string \<Rightarrow> status \<Rightarrow> string option \<Rightarrow> Firestore \<Rightarrow> thrown option \<times> Firestore"
where
  "updateDistrictStatus now districtId st err db =
     (case doc_update districtId
             (\<lambda>d. let d1 = d \<lparr> status := st \<rparr>;
                      d2 = (if st = Completed \<or> st = Failed then d1 \<lparr> processedAt := Some now \<rparr> else d1)
                  in (case err of
                        None \<Rightarrow> d2
                      | Some e \<Rightarrow> if e = [] then d2 else d2 \<lparr> error := Some e \<rparr>))
             (districts db) of
        Inl e \<Rightarrow> (Some e, db)
      | Inr docs \<Rightarrow> (None, db \<lparr> districts := docs \<rparr>))"

definition saveDistricts :: "District list \<Rightarrow> Firestore \<Rightarrow> Firestore" where
  "saveDistricts ds db =
     db \<lparr> districts := foldl (\<lambda>docs d. doc_set (district_id d) d docs) (districts db) ds \<rparr>"

definition saveDistrictContacts :: "DistrictContacts \<Rightarrow> Firestore \<Rightarrow> Firestore" where
  "saveDistrictContacts c db =
     db \<lparr> districtContacts := doc_set (dc_districtId c) c (districtContacts db) \<rparr>"

text \<open>\<open>getPendingDistricts\<close> (without a limit): the pending districts, ordered by name.\<close>

definition getPendingDistricts :: "Firestore \<Rightarrow> District list" where
  "getPendingDistricts db =
     sort_key name (filter (\<lambda>d. status d = Pending) (map snd (districts db)))"

definition getProcessingStats :: "Firestore \<Rightarrow> Stats" where
  "getProcessingStats db =
     (let ds = map snd (districts db)
      in \<lparr> total = int (length ds),
           pending = int (length (filter (\<lambda>d. status d = Pending) ds)),
           processing = int (length (filter (\<lambda>d. status d = Processing) ds)),
           completed = int (length (filter (\<lambda>d. status d = Completed) ds)),
           failed = int (length (filter (\<lambda>d. status d = Failed) ds)) \<rparr>)"

text \<open>An empty database and a district with the given id, name, website and status.\<close>

definition empty_db :: Firestore where
  "empty_db = \<lparr> districts = [], district_logs = [], scrape_progress = [], districtContacts = [] \<rparr>"

definition a_district :: "string \<Rightarrow> string \<Rightarrow> string option \<Rightarrow> status \<Rightarrow> District" where
  "a_district k n site st =
     \<lparr> district_id = k, cdCode = k, name = n, county = ''Alameda'', district_type = ''District'',
       website = site, status = st, processedAt = None, error = None \<rparr>"

section \<open>EmailGenerator.generateDepartmentEmails (src/processors/emailGenerator.ts)\<close>

definition departments :: "string list" where
  "departments =
     [''facilities'', ''maintenance'', ''operations'', ''purchasing'', ''procurement'',
      ''business'', ''admin'', ''info'', ''contact'', ''superintendent'', ''hr'',
      ''humanresources'', ''finance'', ''accounting'', ''it'', ''technology'']"

definition generateDepartmentEmails :: "string \<Rightarrow> string list" where
  "generateDepartmentEmails domain = map (\<lambda>dept. dept @ ''@'' @ domain) departments"

section \<open>The orchestrator (src/orchestrator.ts)\<close>

text \<open>
  The collaborators of the orchestrator that reach outside the program are parameters of
  the model, collected in an environment over a world \<open>'w\<close>: the scraper, the CDE file,
  the SMTP verifier, the faults of the contact store, the exporter, and the functions of
  the email generator that parse URLs and patterns. Each effectful one is an operation on
  the world that resolves or rejects. The environment also holds the JavaScript engine that
  \<open>withRetry\<close> runs on.
\<close>

record 'w env =
  runtime :: engine
  time_of :: "'w \<Rightarrow> int"
  scrapeDistrict :: "District \<Rightarrow> ('w, Contact list) operation"
  waitForToken_done :: "string option \<Rightarrow> 'w \<Rightarrow> 'w"
  extractDomainFromWebsite :: "string option \<Rightarrow> string option"
  loadDistrictContacts :: "('w, (string \<times> Contact list) list) operation"
  inferPatternFromKnownEmails :: "Contact list \<Rightarrow> string option"
  fill_pattern :: "string \<Rightarrow> Contact \<Rightarrow> string \<Rightarrow> string"
  generateEmails :: "string \<Rightarrow> string \<Rightarrow> string \<Rightarrow> string list"
  verifyBatch :: "string list \<Rightarrow> ('w, (string \<times> EmailStatus) list) operation"
  retryGreylisted :: "string list \<Rightarrow> ('w, (string \<times> EmailStatus) list) operation"
  contact_store :: "DistrictContacts \<Rightarrow> ('w, unit) operation"
  scraper_initialize :: "('w, unit) operation"
  pdf_initialize :: "('w, unit) operation"
  firebase_initialize :: "('w, unit) operation"
  generateRunId :: "'w \<Rightarrow> string"
  loadDistricts :: "('w, District list) operation"
  exportResults :: "Firestore \<Rightarrow> ('w, unit) operation"
  timer :: "int \<Rightarrow> 'w \<Rightarrow> 'w"
  cleanup :: "('w, unit) operation"

text \<open>
  What the orchestrator does is recorded in a journal: the log entries and the calls of
  the collaborators, with the events of \<open>withRetry\<close> where a call is retried.
\<close>

datatype entry =
    District_start string
  | Skipping string
  | Rate_limit "string option"
  | Scrape string "event list"
  | Captcha_detected string
  | Save_contacts string "event list"
  | District_complete string int
  | District_error string string
  | Console_error string
  | Progress_line
  | Pause int
  | Logger_fatal

record 'w orch =
  store :: Firestore
  world :: 'w
  journal :: "entry list"
  progressTracker :: "string option"

text \<open>Sequencing of steps that may raise, and \<open>try { ... } catch (error) { ... }\<close>.\<close>

definition bnd ::
  "('s \<Rightarrow> (thrown + 'a) \<times> 's) \<Rightarrow> ('a \<Rightarrow> 's \<Rightarrow> (thrown + 'b) \<times> 's) \<Rightarrow> 's \<Rightarrow> (thrown + 'b) \<times> 's"
where
  "bnd m f s = (case m s of (Inl e, s') \<Rightarrow> (Inl e, s') | (Inr a, s') \<Rightarrow> f a s')"

definition try_catch ::
  "('s \<Rightarrow> (thrown + 'a) \<times> 's) \<Rightarrow> (thrown \<Rightarrow> 's \<Rightarrow> (thrown + 'a) \<times> 's) \<Rightarrow> 's \<Rightarrow> (thrown + 'a) \<times> 's"
where
  "try_catch m h s = (case m s of (Inl e, s') \<Rightarrow> h e s' | (Inr a, s') \<Rightarrow> (Inr a, s'))"

definition log_entry :: "entry \<Rightarrow> 'w orch \<Rightarrow> (thrown + unit) \<times> 'w orch" where
  "log_entry x s = (Inr (), s \<lparr> journal := journal s @ [x] \<rparr>)"

text \<open>A call of a tracker or Firestore operation at the current time.\<close>

definition on_store ::
  "'w env \<Rightarrow> (int \<Rightarrow> Firestore \<Rightarrow> thrown option \<times> Firestore) \<Rightarrow> 'w orch \<Rightarrow> (thrown + unit) \<times> 'w orch"
where
  "on_store env f s =
     (case f (time_of env (world s)) (store s) of
        (None, db) \<Rightarrow> (Inr (), s \<lparr> store := db \<rparr>)
      | (Some e, db) \<Rightarrow> (Inl e, s \<lparr> store := db \<rparr>))"

text \<open>A call of a collaborator.\<close>

definition call :: "('w, 'a) operation \<Rightarrow> 'w orch \<Rightarrow> (thrown + 'a) \<times> 'w orch" where
  "call fn s = (case fn (world s) of (r, w) \<Rightarrow> (r, s \<lparr> world := w \<rparr>))"

text \<open>JavaScript truthiness of an optional string.\<close>

fun truthy :: "string option \<Rightarrow> bool" where
  "truthy None = False"
| "truthy (Some s) = (s \<noteq> [])"

text \<open>
  Lines 151 to 175: the scrape under \<open>withRetry\<close> with \<open>RetryConfigs.network\<close>, and the
  handler that replaces a CAPTCHA_DETECTED error by the department emails.
\<close>

definition department_contact :: "string \<Rightarrow> Contact" where
  "department_contact e =
     \<lparr> firstName = ''Department'', lastName = ''Contact'', title = ''General Contact'',
       email = Some e, emailStatus = None, department = None, phone = None,
       confidence = Some 60 \<rparr>"

definition acquire ::
  "'w env \<Rightarrow> District \<Rightarrow> string option \<Rightarrow> 'w orch \<Rightarrow> (thrown + Contact list) \<times> 'w orch"
where
  "acquire env district domain s =
     (if truthy (website district) then
        (case withRetry (runtime env) (scrapeDistrict env district) RetryConfigs_network (world s) of
           (r, t, w) \<Rightarrow>
             (let s1 = s \<lparr> world := w, journal := journal s @ [Scrape (district_id district) t] \<rparr>
              in case r of
                   Inr found \<Rightarrow> (Inr found, s1)
                 | Inl err \<Rightarrow>
                     (case get_message err of
                        Inl type_error \<Rightarrow> (Inl type_error, s1)
                      | Inr m \<Rightarrow>
                          if m = Some ''CAPTCHA_DETECTED'' then
                            (Inr (case domain of
                                    None \<Rightarrow> []
                                  | Some host \<Rightarrow>
                                      if host = [] then []
                                      else map department_contact (generateDepartmentEmails host)),
                             s1 \<lparr> journal := journal s1 @ [Captcha_detected (name district)] \<rparr>)
                          else (Inl err, s1))))
      else (Inr [], s))"

text \<open>Lines 177 to 190: the contacts of the CDE file for this district.\<close>

definition cde_contact :: "Contact \<Rightarrow> Contact" where
  "cde_contact c =
     \<lparr> firstName = firstName c, lastName = lastName c,
       title = (if title c = [] then ''Administrator'' else title c),
       email = email c, emailStatus = Some Unverified, department = None, phone = None,
       confidence = Some 100 \<rparr>"

definition add_cde ::
  "'w env \<Rightarrow> District \<Rightarrow> Contact list \<Rightarrow> 'w orch \<Rightarrow> (thrown + Contact list) \<times> 'w orch"
where
  "add_cde env district found =
     bnd (call (loadDistrictContacts env))
       (\<lambda>cdeContacts s.
          let districtCDEContacts =
                (case map_of cdeContacts (district_id district) of None \<Rightarrow> [] | Some cs \<Rightarrow> cs)
          in (Inr (if length districtCDEContacts > 0
                   then found @ map cde_contact districtCDEContacts else found), s))"

text \<open>Lines 192 to 215: an address for the contacts that have a name and none.\<close>

definition generate_for :: "'w env \<Rightarrow> string option \<Rightarrow> string \<Rightarrow> Contact \<Rightarrow> Contact" where
  "generate_for env pattern host c =
     (if \<not> truthy (email c) \<and> firstName c \<noteq> [] \<and> lastName c \<noteq> [] then
        (let generatedEmails =
               (case pattern of
                  Some p \<Rightarrow>
                    if p \<noteq> [] then [fill_pattern env p c host]
                    else generateEmails env (firstName c) (lastName c) host
                | None \<Rightarrow> generateEmails env (firstName c) (lastName c) host)
         in case generatedEmails of
              [] \<Rightarrow> c
            | g # gs \<Rightarrow> c \<lparr> email := Some g, emailStatus := Some Generated \<rparr>)
      else c)"

definition generate_missing :: "'w env \<Rightarrow> string option \<Rightarrow> Contact list \<Rightarrow> Contact list" where
  "generate_missing env domain cs =
     (case domain of
        None \<Rightarrow> cs
      | Some host \<Rightarrow>
          if host \<noteq> [] \<and> length (filter (\<lambda>c. truthy (email c)) cs) < 3
          then map (generate_for env (inferPatternFromKnownEmails env cs) host) cs
          else cs)"

text \<open>Lines 217 to 243: the verification, and the second try of the greylisted addresses.\<close>

definition apply_results :: "(string \<times> EmailStatus) list \<Rightarrow> Contact list \<Rightarrow> Contact list" where
  "apply_results results cs =
     map (\<lambda>c. case email c of
                 None \<Rightarrow> c
               | Some e \<Rightarrow>
                   if e \<noteq> [] \<and> map_of results e \<noteq> None
                   then c \<lparr> emailStatus := map_of results e \<rparr> else c) cs"

definition verify_contacts ::
  "'w env \<Rightarrow> Contact list \<Rightarrow> 'w orch \<Rightarrow> (thrown + Contact list) \<times> 'w orch"
where
  "verify_contacts env cs =
     (let emailsToVerify =
            map (\<lambda>c. case email c of Some e \<Rightarrow> e | None \<Rightarrow> [])
              (filter (\<lambda>c. truthy (email c) \<and> emailStatus c = None) cs)
      in if length emailsToVerify > 0 then
           bnd (call (verifyBatch env emailsToVerify))
             (\<lambda>verificationResults.
                let cs1 = apply_results verificationResults cs;
                    greylistedEmails =
                      map fst (filter (\<lambda>(e, st). st = Greylist_retry) verificationResults)
                in if length greylistedEmails > 0 then
                     bnd (call (retryGreylisted env greylistedEmails))
                       (\<lambda>retryResults s. (Inr (apply_results retryResults cs1), s))
                   else (\<lambda>s. (Inr cs1, s)))
         else (\<lambda>s. (Inr cs, s)))"

text \<open>
  Lines 245 to 268: the contacts are saved under \<open>withRetry\<close> with
  \<open>RetryConfigs.database\<close> (an attempt fails when the contact store says so and writes the
  document otherwise), then the district is marked completed.
\<close>

definition save_attempt ::
  "'w env \<Rightarrow> DistrictContacts \<Rightarrow> (Firestore \<times> 'w, unit) operation"
where
  "save_attempt env dc = (\<lambda>(db, w).
     case contact_store env dc w of
       (Inl e, w') \<Rightarrow> (Inl e, (db, w'))
     | (Inr u, w') \<Rightarrow> (Inr (), (saveDistrictContacts dc db, w')))"

definition save_contacts ::
  "'w env \<Rightarrow> District \<Rightarrow> Contact list \<Rightarrow> 'w orch \<Rightarrow> (thrown + unit) \<times> 'w orch"
where
  "save_contacts env district cs s =
     (let districtContacts =
            \<lparr> dc_districtId = district_id district, dc_districtName = name district,
              dc_county = county district, dc_website = website district, contacts = cs,
              scrapedAt = time_of env (world s) \<rparr>
      in case withRetry (runtime env) (save_attempt env districtContacts) RetryConfigs_database
                (store s, world s) of
           (r, t, (db, w)) \<Rightarrow>
             (r, s \<lparr> store := db, world := w,
                    journal := journal s @ [Save_contacts (district_id district) t] \<rparr>))"

definition finish ::
  "'w env \<Rightarrow> string \<Rightarrow> District \<Rightarrow> string option \<Rightarrow> Contact list \<Rightarrow> 'w orch
     \<Rightarrow> (thrown + unit) \<times> 'w orch"
where
  "finish env rid district domain cs =
     bnd (save_contacts env district cs)
       (\<lambda>u. bnd (on_store env (\<lambda>now. updateDistrictStatus now (district_id district) Completed None))
         (\<lambda>u. bnd (on_store env (\<lambda>now. completeDistrict rid now district (int (length cs))
                      (Some \<lparr> details_domain = domain,
                              verifiedEmails = length (filter (\<lambda>c. emailStatus c = Some Verified) cs),
                              generatedEmails = length (filter (\<lambda>c. emailStatus c = Some Generated) cs) \<rparr>)))
           (\<lambda>u. log_entry (District_complete (district_id district) (int (length cs))))))"

text \<open>The body of the \<open>try\<close> of \<open>processDistrict\<close>, after the check for a district already
  processed in this run.\<close>

definition pipeline ::
  "'w env \<Rightarrow> string \<Rightarrow> District \<Rightarrow> 'w orch \<Rightarrow> (thrown + unit) \<times> 'w orch"
where
  "pipeline env rid district =
     bnd (on_store env (\<lambda>now. startDistrict rid now district))
       (\<lambda>u. bnd (on_store env (\<lambda>now. updateDistrictStatus now (district_id district) Processing None))
         (\<lambda>u. bnd (\<lambda>s. (Inr (), s \<lparr> world := waitForToken_done env (website district) (world s),
                                     journal := journal s @ [Rate_limit (website district)] \<rparr>))
           (\<lambda>u. let domain = extractDomainFromWebsite env (website district)
                in bnd (acquire env district domain)
                     (\<lambda>found. bnd (add_cde env district found)
                        (\<lambda>cs. bnd (verify_contacts env (generate_missing env domain cs))
                           (\<lambda>cs'. finish env rid district domain cs'))))))"

text \<open>The handler of \<open>processDistrict\<close>: the message of the error, the log entry, the failed
  district in the tracker and in Firestore.\<close>

definition error_message :: "thrown \<Rightarrow> string" where
  "error_message e = (case e of Error_instance m cs \<Rightarrow> m | _ \<Rightarrow> String_of e)"

definition record_failure ::
  "'w env \<Rightarrow> string \<Rightarrow> District \<Rightarrow> thrown \<Rightarrow> 'w orch \<Rightarrow> (thrown + unit) \<times> 'w orch"
where
  "record_failure env rid district e =
     (let errorMessage = error_message e
      in bnd (log_entry (District_error (district_id district) errorMessage))
           (\<lambda>u. bnd (on_store env (\<lambda>now. failDistrict rid now district errorMessage))
              (\<lambda>u. on_store env
                 (\<lambda>now. updateDistrictStatus now (district_id district) Failed (Some errorMessage)))))"

definition processDistrict ::
  "'w env \<Rightarrow> string \<Rightarrow> District \<Rightarrow> 'w orch \<Rightarrow> (thrown + unit) \<times> 'w orch"
where
  "processDistrict env rid district =
     bnd (log_entry (District_start (district_id district)))
       (\<lambda>u. try_catch
          (\<lambda>s. if isDistrictProcessed rid (district_id district) (store s)
                then log_entry (Skipping (name district)) s
                else pipeline env rid district s)
          (record_failure env rid district))"

text \<open>\<open>processBatch\<close>, the districts taken one after the other (the schedule of \<open>p-limit\<close>
  when \<open>maxConcurrent\<close> is 1): what \<open>processDistrict\<close> raises is printed and the next
  district is processed.\<close>

fun processBatch :: "'w env \<Rightarrow> string \<Rightarrow> District list \<Rightarrow> 'w orch \<Rightarrow> 'w orch" where
  "processBatch env rid [] s = s"
| "processBatch env rid (district # rest) s =
     processBatch env rid rest
       (case processDistrict env rid district s of
          (Inr u, s') \<Rightarrow> s'
        | (Inl e, s') \<Rightarrow> s' \<lparr> journal := journal s' @ [Console_error (name district)] \<rparr>)"

text \<open>\<open>loadOrGetDistricts\<close>: the CDE data when Firestore holds no district, the pending
  districts otherwise.\<close>

definition loadOrGetDistricts :: "'w env \<Rightarrow> 'w orch \<Rightarrow> (thrown + District list) \<times> 'w orch" where
  "loadOrGetDistricts env s =
     (if total (getProcessingStats (store s)) = 0 then
        bnd (call (loadDistricts env))
          (\<lambda>ds s'. (Inr ds, s' \<lparr> store := saveDistricts ds (store s') \<rparr>)) s
      else (Inr (getPendingDistricts (store s)), s))"

text \<open>The loop over the batches of 50 districts, with the progress line after each batch
  and the pause of 5000 ms before the next one.\<close>

function batches :: "'w env \<Rightarrow> string \<Rightarrow> District list \<Rightarrow> 'w orch \<Rightarrow> 'w orch" where
  "batches env rid ds s =
     (if ds = [] then s
      else
        (let s1 = processBatch env rid (take 50 ds) s;
             s2 = (if getProgress rid (store s1) \<noteq> None
                   then s1 \<lparr> journal := journal s1 @ [Progress_line] \<rparr> else s1)
         in if drop 50 ds \<noteq> []
            then batches env rid (drop 50 ds)
                   (s2 \<lparr> world := timer env 5000 (world s2), journal := journal s2 @ [Pause 5000] \<rparr>)
            else s2))"
  by pat_completeness auto
termination
  by (relation "measure (\<lambda>(env, rid, ds, s). length ds)") auto

text \<open>
  \<open>run\<close>. The \<open>try\<close> block: \<open>initialize\<close> (which creates the tracker with a new run id),
  the districts, the run document, the districts that remain, the batches, the end of the
  run and the export. The \<open>catch\<close> block logs, marks the run failed through the tracker
  (a TypeError when \<open>initialize\<close> raised before the tracker was created) and raises the
  error again. The \<open>finally\<close> block is \<open>cleanup\<close>.
\<close>

definition initialize :: "'w env \<Rightarrow> 'w orch \<Rightarrow> (thrown + unit) \<times> 'w orch" where
  "initialize env =
     bnd (call (scraper_initialize env))
       (\<lambda>u. bnd (call (pdf_initialize env))
          (\<lambda>u. bnd (call (firebase_initialize env))
             (\<lambda>u s. (Inr (), s \<lparr> progressTracker := Some (generateRunId env (world s)) \<rparr>))))"

definition run_body :: "'w env \<Rightarrow> 'w orch \<Rightarrow> (thrown + unit) \<times> 'w orch" where
  "run_body env =
     bnd (initialize env)
       (\<lambda>u. bnd (loadOrGetDistricts env)
          (\<lambda>ds s.
             case progressTracker s of
               None \<Rightarrow> (Inl (Error_instance ''Cannot read properties of undefined (reading 'initializeRun')''
                          [''TypeError'']), s)
             | Some rid \<Rightarrow>
                 (let s1 = s \<lparr> store := initializeRun rid (time_of env (world s)) (int (length ds))
                                         (store s) \<rparr>;
                      unprocessedIds = getUnprocessedDistricts rid (store s1);
                      districtsToProcess = filter (\<lambda>d. district_id d \<in> set unprocessedIds) ds;
                      s2 = batches env rid districtsToProcess s1
                  in bnd (on_store env (completeRun rid))
                       (\<lambda>u s3. call (exportResults env (store s3)) s3) s2)))"

definition run_failed :: "'w env \<Rightarrow> thrown \<Rightarrow> 'w orch \<Rightarrow> (thrown + unit) \<times> 'w orch" where
  "run_failed env e =
     bnd (log_entry Logger_fatal)
       (\<lambda>u s. case progressTracker s of
                 None \<Rightarrow> (Inl (Error_instance ''Cannot read properties of undefined (reading 'failRun')''
                            [''TypeError'']), s)
               | Some rid \<Rightarrow>
                   bnd (on_store env (\<lambda>now. failRun rid now (error_message e)))
                     (\<lambda>u s'. (Inl e, s')) s)"

definition run :: "'w env \<Rightarrow> 'w orch \<Rightarrow> (thrown + unit) \<times> 'w orch" where
  "run env s =
     (case try_catch (run_body env) (run_failed env) s of
        (r, s1) \<Rightarrow>
          (case call (cleanup env) s1 of
             (Inl e, s2) \<Rightarrow> (Inl e, s2)
           | (Inr u, s2) \<Rightarrow> (r, s2)))"

text \<open>The districts that the journal says were handed to the scraper.\<close>

fun scraped :: "entry list \<Rightarrow> string list" where
  "scraped [] = []"
| "scraped (Scrape k t # xs) = k # scraped xs"
| "scraped (x # xs) = scraped xs"

text \<open>The \<open>districts\<close> collection keeps each district under its own id.\<close>

definition keyed_by_id :: "Firestore \<Rightarrow> bool" where
  "keyed_by_id db = (\<forall>(k, d) \<in> set (districts db). district_id d = k)"

text \<open>The districts whose processing the journal says has begun.\<close>

fun started :: "entry list \<Rightarrow> string list" where
  "started [] = []"
| "started (District_start k # xs) = k # started xs"
| "started (x # xs) = started xs"

text \<open>
  A step keeps a relation between the state it starts from and the state it leaves. Three
  relations are used: the districts handed to the scraper are those of before or in \<open>A\<close>;
  no processing of a district has begun; no document of the districts and of the runs has
  disappeared.
\<close>

definition preserves :: "('s \<Rightarrow> 's \<Rightarrow> bool) \<Rightarrow> ('s \<Rightarrow> 'r \<times> 's) \<Rightarrow> bool" where
  "preserves R m = (\<forall>s. R s (snd (m s)))"

definition scrapes_within :: "string set \<Rightarrow> 'w orch \<Rightarrow> 'w orch \<Rightarrow> bool" where
  "scrapes_within A s s' = (set (scraped (journal s')) \<subseteq> set (scraped (journal s)) \<union> A)"

definition same_starts :: "'w orch \<Rightarrow> 'w orch \<Rightarrow> bool" where
  "same_starts s s' = (started (journal s') = started (journal s))"

definition same_keys :: "Firestore \<Rightarrow> Firestore \<Rightarrow> bool" where
  "same_keys db db' =
     (map fst (districts db') = map fst (districts db) \<and>
      map fst (scrape_progress db') = map fst (scrape_progress db))"

definition keeps_documents :: "'w orch \<Rightarrow> 'w orch \<Rightarrow> bool" where
  "keeps_documents s s' = same_keys (store s) (store s')"

text \<open>The entries that the processing of a district writes after its first one.\<close>

fun pipeline_entry :: "District \<Rightarrow> entry \<Rightarrow> bool" where
  "pipeline_entry d (Rate_limit site) = True"
| "pipeline_entry d (Scrape k t) = (k = district_id d)"
| "pipeline_entry d (Captcha_detected n) = True"
| "pipeline_entry d (Save_contacts k t) = True"
| "pipeline_entry d (District_complete k n) = True"
| "pipeline_entry d (District_error k m) = True"
| "pipeline_entry d (Skipping n) = True"
| "pipeline_entry d x = False"

text \<open>
  A relation honours the steps of the orchestrator when it is reflexive and transitive
  and holds across a change of the world, across a journal entry that is \<open>allowed\<close>,
  and across a change of the store that keeps the documents.
\<close>

definition honours :: "(entry \<Rightarrow> bool) \<Rightarrow> ('w orch \<Rightarrow> 'w orch \<Rightarrow> bool) \<Rightarrow> bool" where
  "honours allowed R =
     (transp R \<and> reflp R \<and>
      (\<forall>s w. R s (s \<lparr> world := w \<rparr>)) \<and>
      (\<forall>s x. allowed x \<longrightarrow> R s (s \<lparr> journal := journal s @ [x] \<rparr>)) \<and>
      (\<forall>s db. same_keys (store s) db \<longrightarrow> R s (s \<lparr> store := db \<rparr>)))"

text \<open>
  An environment in which every collaborator succeeds at once: the world is the time, the
  scraper finds one contact without an address, the CDE file has no contact, and generated
  addresses are first.last at the domain. Its engine is \<open>plain_engine\<close>: the delays of
  the presets of \<open>RetryConfigs\<close> are computed without rounding.
\<close>

definition quiet_env :: "int env" where
  "quiet_env =
     \<lparr> runtime = plain_engine,
       time_of = (\<lambda>w. w),
       scrapeDistrict = (\<lambda>d w. (Inr [\<lparr> firstName = ''Ann'', lastName = ''Lee'', title = ''Director'',
                                          email = None, emailStatus = None, department = None,
                                          phone = None, confidence = None \<rparr>], w + 1)),
       waitForToken_done = (\<lambda>site w. w),
       extractDomainFromWebsite = (\<lambda>site. case site of None \<Rightarrow> None | Some u \<Rightarrow> Some (drop 8 u)),
       loadDistrictContacts = (\<lambda>w. (Inr [], w)),
       inferPatternFromKnownEmails = (\<lambda>cs. None),
       fill_pattern = (\<lambda>p c host. p),
       generateEmails = (\<lambda>f l host. [f @ ''.'' @ l @ ''@'' @ host]),
       verifyBatch = (\<lambda>es w. (Inr (map (\<lambda>e. (e, Verified)) es), w)),
       retryGreylisted = (\<lambda>es w. (Inr [], w)),
       contact_store = (\<lambda>dc w. (Inr (), w)),
       scraper_initialize = (\<lambda>w. (Inr (), w)),
       pdf_initialize = (\<lambda>w. (Inr (), w)),
       firebase_initialize = (\<lambda>w. (Inr (), w)),
       generateRunId = (\<lambda>w. ''run_new''),
       loadDistricts = (\<lambda>w. (Inr [], w)),
       exportResults = (\<lambda>db w. (Inr (), w)),
       timer = (\<lambda>ms w. w + ms),
       cleanup = (\<lambda>w. (Inr (), w)) \<rparr>"

text \<open>Five districts: the first three completed by the run \<open>run_old\<close>, the last two pending.\<close>

definition old_log :: "string \<Rightarrow> DistrictLog" where
  "old_log k =
     \<lparr> log_districtId = k, log_districtName = ''District '' @ k, log_runId = ''run_old'',
       log_status = Success, log_startedAt = 0, log_completedAt = 0, duration = 0,
       contactsFound = 1, log_error = None, details = None \<rparr>"

definition five_districts :: Firestore where
  "five_districts =
     empty_db \<lparr> districts :=
       [(''1'', a_district ''1'' ''District 1'' (Some ''https://d1.example.org'') Completed),
        (''2'', a_district ''2'' ''District 2'' (Some ''https://d2.example.org'') Completed),
        (''3'', a_district ''3'' ''District 3'' (Some ''https://d3.example.org'') Completed),
        (''4'', a_district ''4'' ''District 4'' (Some ''https://d4.example.org'') Pending),
        (''5'', a_district ''5'' ''District 5'' (Some ''https://d5.example.org'') Pending)],
       district_logs := [old_log ''1'', old_log ''2'', old_log ''3''] \<rparr>"

definition idle :: "Firestore \<Rightarrow> 'w \<Rightarrow> 'w orch" where
  "idle db w = \<lparr> store = db, world = w, journal = [], progressTracker = None \<rparr>"

text \<open>
  An environment like \<open>quiet_env\<close> whose scraper meets a CAPTCHA at every call, and the
  fourth of the five districts.
\<close>

definition captcha_env :: "int env" where
  "captcha_env =
     quiet_env \<lparr> scrapeDistrict := (\<lambda>d w. (Inl (Error_instance ''CAPTCHA_DETECTED'' []), w + 1)) \<rparr>"

definition district_4 :: District where
  "district_4 = a_district ''4'' ''District 4'' (Some ''https://d4.example.org'') Pending"

text \<open>
  An environment like \<open>quiet_env\<close> in which the scraper fails on the district \<open>4\<close> at
  every call, and the fifth of the five districts.
\<close>

definition failing_env :: "int env" where
  "failing_env =
     quiet_env \<lparr> scrapeDistrict := (\<lambda>d w.
       if district_id d = ''4'' then (Inl (Error_instance ''Navigation failed'' []), w + 1)
       else scrapeDistrict quiet_env d w) \<rparr>"

definition district_5 :: District where
  "district_5 = a_district ''5'' ''District 5'' (Some ''https://d5.example.org'') Pending"

section \<open>Properties of withRetry\<close>

declare withRetry_loop.simps [simp del]

lemma get_message_readable: "\<not> is_nullish e \<Longrightarrow> \<exists>m. get_message e = Inr m"
  by (cases e) auto


lemma isRetryableError_empty: "isRetryableError js e []"
  by (cases e) auto




lemma loop_exhaust:
  "fails_with fn w (es @ [e]) \<Longrightarrow> list_all (retryable_failure js opts) (es @ [e]) \<Longrightarrow>
   (\<And>e n. onRetry opts e n = None) \<Longrightarrow> attempt + int (length es) = maxRetries opts \<Longrightarrow>
   withRetry_loop js fn opts attempt le w =
     (Inl e, retry_events js opts attempt es @ [Invoked, Logger_error],
      world_after fn (Suc (length es)) w)"
proof (induction es arbitrary: w attempt le)
  case Nil
  obtain m where m: "get_message e = Inr m"
    using Nil.prems(2) get_message_readable by (auto simp: retryable_failure_def)
  obtain w' where fn: "fn w = (Inl e, w')"
    using Nil.prems(1) by (cases "fn w") auto
  show ?case
    using Nil.prems(2,4) m
    by (subst withRetry_loop.simps) (simp add: fn retryable_failure_def)
next
  case (Cons x es)
  obtain m where m: "get_message x = Inr m"
    using Cons.prems(2) get_message_readable by (auto simp: retryable_failure_def)
  obtain w' where fn: "fn w = (Inl x, w')"
    using Cons.prems(1) by (cases "fn w") auto
  have rec: "withRetry_loop js fn opts (attempt + 1) x w' =
     (Inl e, retry_events js opts (attempt + 1) es @ [Invoked, Logger_error],
      world_after fn (Suc (length es)) w')"
    using Cons.prems fn by (intro Cons.IH) auto
  have "attempt < maxRetries opts" using Cons.prems(4) by simp
  then show ?case
    using Cons.prems(2,3) m rec
    by (subst withRetry_loop.simps) (simp add: fn retryable_failure_def)
qed





lemma invocations_retry_events: "invocations (retry_events js opts attempt es) = length es"
  by (induction es arbitrary: attempt) (auto simp: invocations_def)

lemma invocations_append: "invocations (s @ t) = invocations s + invocations t"
  by (simp add: invocations_def)



lemma withRetry_gives_up:
  assumes "maxRetries_opt options = Some (int (length es))"
    and "fails_with fn w (es @ [e])"
    and "list_all (retryable_failure js (spread DEFAULT_OPTIONS options)) (es @ [e])"
    and "\<And>e n. onRetry (spread DEFAULT_OPTIONS options) e n = None"
  shows "withRetry js fn options w =
    (Inl e, retry_events js (spread DEFAULT_OPTIONS options) 0 es @ [Invoked, Logger_error],
     world_after fn (Suc (length es)) w)"
proof -
  have "maxRetries (spread DEFAULT_OPTIONS options) = int (length es)"
    using assms(1) by (simp add: spread_def)
  then show ?thesis
    unfolding withRetry_def using assms by (intro loop_exhaust) auto
qed





















section \<open>Properties of CircuitBreaker\<close>






lemma reset_inv: "breaker_inv (reset cb)"
  by (simp add: breaker_inv_def reset_def)












section \<open>Properties of RateLimiter\<close>

lemma refill_fields [simp]:
  "maxTokens (refill now rl) = maxTokens rl"
  "refillRate (refill now rl) = refillRate rl"
  "domainBuckets (refill now rl) = domainBuckets rl"
  "tokens (refill now rl) \<le> maxTokens rl"
  by (simp_all add: refill_def Let_def)

lemma refillDomain_fields [simp]:
  "maxTokens (refillDomain now d rl) = maxTokens rl"
  "refillRate (refillDomain now d rl) = refillRate rl"
  "tokens (refillDomain now d rl) = tokens rl"
  "lastRefill (refillDomain now d rl) = lastRefill rl"
  by (simp_all add: refillDomain_def Let_def split: option.splits)

lemma refillDomain_dom:
  "(domainBuckets (refillDomain now d rl) d' = None) = (domainBuckets rl d' = None)"
  by (simp add: refillDomain_def Let_def split: option.splits)

lemma refill_within: "within_capacity rl \<Longrightarrow> within_capacity (refill now rl)"
  by (simp add: within_capacity_def)

lemma refillDomain_within: "within_capacity rl \<Longrightarrow> within_capacity (refillDomain now d rl)"
  by (auto simp: within_capacity_def refillDomain_def Let_def split: option.splits if_splits)

lemma wait_global_events:
  "wait_global fuel clock delay rl w = Some (rl', w', evs) \<Longrightarrow>
   (\<exists>ds y. evs = map Delayed ds @ [Global_token y] \<and> tokens rl' = y - 1 \<and> 1 \<le> y) \<and>
   domainBuckets rl' = domainBuckets rl \<and> maxTokens rl' = maxTokens rl \<and>
   refillRate rl' = refillRate rl"
proof (induction fuel arbitrary: rl w evs)
  case 0
  then show ?case by simp
next
  case (Suc fuel)
  show ?case
  proof (cases "tokens rl < 1")
    case True
    let ?ms = "wait_millis (1 - tokens rl) (refillRate rl)"
    let ?w = "delay ?ms w"
    from Suc.prems True obtain evs' where
      rec: "wait_global fuel clock delay (refill (clock ?w) rl) ?w = Some (rl', w', evs')"
      and evs: "evs = Delayed ?ms # evs'"
      by (auto simp: Let_def split: option.splits)
    from Suc.IH [OF rec] obtain ds y where
      "evs' = map Delayed ds @ [Global_token y]" "tokens rl' = y - 1" "1 \<le> y" by auto
    then have "evs = map Delayed (?ms # ds) @ [Global_token y] \<and> tokens rl' = y - 1 \<and> 1 \<le> y"
      using evs by simp
    then show ?thesis
      using Suc.IH [OF rec] by (metis refill_fields(1,2,3))
  next
    case False
    with Suc.prems show ?thesis by auto
  qed
qed

lemma wait_global_within:
  "wait_global fuel clock delay rl w = Some (rl', w', evs) \<Longrightarrow> within_capacity rl \<Longrightarrow>
   within_capacity rl'"
proof (induction fuel arbitrary: rl w evs)
  case 0
  then show ?case by simp
next
  case (Suc fuel)
  show ?case
  proof (cases "tokens rl < 1")
    case True
    with Suc.prems(1) obtain evs' where
      "wait_global fuel clock delay
         (refill (clock (delay (wait_millis (1 - tokens rl) (refillRate rl)) w)) rl)
         (delay (wait_millis (1 - tokens rl) (refillRate rl)) w) = Some (rl', w', evs')"
      by (auto simp: Let_def split: option.splits)
    then show ?thesis
      using Suc.IH refill_within [OF Suc.prems(2)] by blast
  next
    case False
    with Suc.prems show ?thesis by (auto simp: within_capacity_def)
  qed
qed

lemma wait_domain_events:
  "wait_domain fuel clock delay d rl w = Some (Inr (rl', w', evs)) \<Longrightarrow>
   (\<exists>ds x b. evs = map Delayed ds @ [Domain_token d x] \<and>
      domainBuckets rl' d = Some b \<and> tokens b = x - 1 \<and> 1 \<le> x) \<and>
   tokens rl' = tokens rl \<and> lastRefill rl' = lastRefill rl \<and> maxTokens rl' = maxTokens rl \<and>
   refillRate rl' = refillRate rl"
proof (induction fuel arbitrary: rl w evs)
  case 0
  then show ?case by simp
next
  case (Suc fuel)
  from Suc.prems obtain b where b: "domainBuckets rl d = Some b"
    by (auto split: option.splits)
  show ?case
  proof (cases "tokens b < 1")
    case True
    let ?ms = "wait_millis (1 - tokens b) (refillRate rl)"
    let ?w = "delay ?ms w"
    from Suc.prems True b obtain evs' where
      rec: "wait_domain fuel clock delay d (refillDomain (clock ?w) d rl) ?w =
              Some (Inr (rl', w', evs'))"
      and evs: "evs = Delayed ?ms # evs'"
      by (auto simp: Let_def split: option.splits sum.splits)
    from Suc.IH [OF rec] obtain ds x b' where
      "evs' = map Delayed ds @ [Domain_token d x]"
      "domainBuckets rl' d = Some b'" "tokens b' = x - 1" "1 \<le> x" by auto
    then have "evs = map Delayed (?ms # ds) @ [Domain_token d x] \<and>
       domainBuckets rl' d = Some b' \<and> tokens b' = x - 1 \<and> 1 \<le> x"
      using evs by simp
    then show ?thesis
      using Suc.IH [OF rec] by (metis refillDomain_fields)
  next
    case False
    with Suc.prems b show ?thesis by auto
  qed
qed

lemma wait_domain_within:
  "wait_domain fuel clock delay d rl w = Some (Inr (rl', w', evs)) \<Longrightarrow> within_capacity rl \<Longrightarrow>
   within_capacity rl'"
proof (induction fuel arbitrary: rl w evs)
  case 0
  then show ?case by simp
next
  case (Suc fuel)
  from Suc.prems obtain b where b: "domainBuckets rl d = Some b"
    by (auto split: option.splits)
  show ?case
  proof (cases "tokens b < 1")
    case True
    with Suc.prems(1) b obtain evs' where
      "wait_domain fuel clock delay d
         (refillDomain (clock (delay (wait_millis (1 - tokens b) (refillRate rl)) w)) d rl)
         (delay (wait_millis (1 - tokens b) (refillRate rl)) w) = Some (Inr (rl', w', evs'))"
      by (auto simp: Let_def split: option.splits sum.splits)
    then show ?thesis
      using Suc.IH refillDomain_within [OF Suc.prems(2)] by blast
  next
    case False
    have "tokens b - 1 \<le> maxTokens rl"
      using Suc.prems(2) b by (fastforce simp: within_capacity_def)
    with False Suc.prems b show ?thesis
      by (auto simp: within_capacity_def split: if_splits)
  qed
qed

lemma url_domain_within:
  "within_capacity rl \<Longrightarrow> within_capacity (snd (url_domain hostname now url rl))"
  by (auto simp: url_domain_def within_capacity_def split: option.splits if_splits)

lemma url_domain_fields:
  "maxTokens (snd (url_domain hostname now url rl)) = maxTokens rl"
  "refillRate (snd (url_domain hostname now url rl)) = refillRate rl"
  "tokens (snd (url_domain hostname now url rl)) = tokens rl"
  by (auto simp: url_domain_def split: option.splits if_splits)

lemma waitForToken_within:
  assumes "waitForToken fuel clock delay hostname url rl w = Some (Inr (rl', w', evs))"
    and "within_capacity rl"
  shows "within_capacity rl' \<and> 0 \<le> tokens rl'"
proof -
  obtain domain rl0 where ud: "url_domain hostname (clock w) url rl = (domain, rl0)"
    by (cases "url_domain hostname (clock w) url rl")
  have w0: "within_capacity rl0"
    using url_domain_within [OF assms(2), of hostname "clock w" url] ud by simp
  from assms(1) ud obtain rl1 w1 evs1 evs2 where
    dom: "(case domain of None \<Rightarrow> Some (Inr (rl0, w, []))
           | Some d \<Rightarrow> if d = [] then Some (Inr (rl0, w, []))
               else wait_domain fuel clock delay d (refillDomain (clock w) d rl0) w) =
          Some (Inr (rl1, w1, evs1))"
    and glob: "wait_global fuel clock delay (refill (clock w1) rl1) w1 = Some (rl', w', evs2)"
    by (auto simp: waitForToken_def split: option.splits sum.splits prod.splits)
  have "within_capacity rl1"
  proof (cases "domain = None \<or> domain = Some []")
    case True
    with dom w0 show ?thesis by (auto split: option.splits)
  next
    case False
    then obtain d where d: "domain = Some d" "d \<noteq> []" by auto
    with dom have "wait_domain fuel clock delay d (refillDomain (clock w) d rl0) w =
       Some (Inr (rl1, w1, evs1))" by simp
    then show ?thesis
      by (rule wait_domain_within) (rule refillDomain_within [OF w0])
  qed
  then have "within_capacity (refill (clock w1) rl1)"
    by (rule refill_within)
  with glob have "within_capacity rl'"
    by (rule wait_global_within)
  moreover have "0 \<le> tokens rl'"
    using wait_global_events [OF glob] by auto
  ultimately show ?thesis by simp
qed

lemma waitForToken_events:
  assumes "hostname u = Some d" "u \<noteq> []" "d \<noteq> []"
    and "waitForToken fuel clock delay hostname (Some u) rl w = Some (Inr (rl', w', evs))"
  shows "\<exists>ds1 x ds2 y b.
           evs = map Delayed ds1 @ [Domain_token d x] @ map Delayed ds2 @ [Global_token y] \<and>
           1 \<le> x \<and> 1 \<le> y \<and>
           domainBuckets rl' d = Some b \<and> tokens b = x - 1 \<and> tokens rl' = y - 1"
proof -
  obtain rl0 where ud: "url_domain hostname (clock w) (Some u) rl = (Some d, rl0)"
    using assms(1,2) by (simp add: url_domain_def)
  from assms(4) ud assms(3) obtain rl1 w1 evs1 evs2 where
    dom: "wait_domain fuel clock delay d (refillDomain (clock w) d rl0) w =
          Some (Inr (rl1, w1, evs1))"
    and glob: "wait_global fuel clock delay (refill (clock w1) rl1) w1 = Some (rl', w', evs2)"
    and evs: "evs = evs1 @ evs2"
    by (auto simp: waitForToken_def split: option.splits sum.splits prod.splits)
  from wait_domain_events [OF dom] obtain ds1 x b where
    1: "evs1 = map Delayed ds1 @ [Domain_token d x]"
       "domainBuckets rl1 d = Some b" "tokens b = x - 1" "1 \<le> x" by auto
  from wait_global_events [OF glob] obtain ds2 y where
    2: "evs2 = map Delayed ds2 @ [Global_token y]" "tokens rl' = y - 1" "1 \<le> y"
       "domainBuckets rl' = domainBuckets rl1" by auto
  show ?thesis
    using 1 2 evs by auto
qed

lemma wait_millis_enough:
  assumes "0 < rate" "wait_millis needed rate = Millis n"
  shows "needed \<le> real_of_int n / 1000 * rate"
proof -
  have "needed / rate * 1000 \<le> real_of_int n"
    using assms by (auto simp: wait_millis_def split: if_splits)
  then have "needed / rate \<le> real_of_int n / 1000" by simp
  then have "needed / rate * rate \<le> real_of_int n / 1000 * rate"
    using assms(1) by (intro mult_right_mono) auto
  then show ?thesis using assms(1) by simp
qed

lemma wait_global_returns:
  assumes "0 < refillRate rl" "1 \<le> maxTokens rl" "lastRefill rl \<le> clock w"
    and "\<And>n w. clock w + n \<le> clock (delay (Millis n) w)"
  shows "\<exists>res. wait_global (Suc (Suc fuel)) clock delay rl w = Some res"
proof (cases "tokens rl < 1")
  case False
  then show ?thesis by simp
next
  case True
  obtain n where n: "wait_millis (1 - tokens rl) (refillRate rl) = Millis n"
    using assms(1) by (simp add: wait_millis_def)
  let ?w = "delay (Millis n) w"
  have "real_of_int n \<le> real_of_int (clock ?w - lastRefill rl)"
    using assms(3) assms(4) [of w n] by linarith
  then have "real_of_int n / 1000 * refillRate rl
      \<le> real_of_int (clock ?w - lastRefill rl) / 1000 * refillRate rl"
    using assms(1) by (intro mult_right_mono divide_right_mono) auto
  with wait_millis_enough [OF assms(1) n]
  have "1 \<le> tokens rl + real_of_int (clock ?w - lastRefill rl) / 1000 * refillRate rl"
    by linarith
  then have "\<not> tokens (refill (clock ?w) rl) < 1"
    using assms(2) by (simp add: refill_def Let_def)
  then show ?thesis
    using True n by (simp add: Let_def)
qed

lemma wait_domain_returns:
  assumes "0 < refillRate rl" "1 \<le> maxTokens rl" "domainBuckets rl d = Some b"
    "lastRefill b \<le> clock w"
    and "\<And>n w. clock w + n \<le> clock (delay (Millis n) w)"
  shows "\<exists>res. wait_domain (Suc (Suc fuel)) clock delay d rl w = Some (Inr res)"
proof (cases "tokens b < 1")
  case False
  then show ?thesis using assms(3) by simp
next
  case True
  obtain n where n: "wait_millis (1 - tokens b) (refillRate rl) = Millis n"
    using assms(1) by (simp add: wait_millis_def)
  let ?w = "delay (Millis n) w"
  let ?rl = "refillDomain (clock ?w) d rl"
  have "real_of_int n \<le> real_of_int (clock ?w - lastRefill b)"
    using assms(4) assms(5) [of w n] by linarith
  then have "real_of_int n / 1000 * refillRate rl
      \<le> real_of_int (clock ?w - lastRefill b) / 1000 * refillRate rl"
    using assms(1) by (intro mult_right_mono divide_right_mono) auto
  with wait_millis_enough [OF assms(1) n]
  have "1 \<le> tokens b + real_of_int (clock ?w - lastRefill b) / 1000 * refillRate rl"
    by linarith
  then obtain b' where "domainBuckets ?rl d = Some b'" "\<not> tokens b' < 1"
    using assms(2,3) by (simp add: refillDomain_def Let_def)
  then show ?thesis
    using True n assms(3) by (simp add: Let_def)
qed

lemma url_domain_bucket:
  "url_domain hostname now url rl = (Some d, rl0) \<Longrightarrow> \<exists>b. domainBuckets rl0 d = Some b"
  by (auto simp: url_domain_def split: option.splits if_splits)

lemma refillDomain_bucket:
  "domainBuckets rl d = Some b \<Longrightarrow>
   \<exists>b'. domainBuckets (refillDomain now d rl) d = Some b' \<and> lastRefill b' = now"
  by (simp add: refillDomain_def Let_def)

lemma waitForToken_returns:
  assumes "0 < refillRate rl" "1 \<le> maxTokens rl"
    and timers: "\<And>n w. clock w + n \<le> clock (delay (Millis n) w)"
  shows "\<exists>res. waitForToken (Suc (Suc fuel)) clock delay hostname url rl w = Some (Inr res)"
proof -
  obtain domain rl0 where ud: "url_domain hostname (clock w) url rl = (domain, rl0)"
    by (cases "url_domain hostname (clock w) url rl")
  have f0: "refillRate rl0 = refillRate rl" "maxTokens rl0 = maxTokens rl"
    using url_domain_fields [of hostname "clock w" url rl] ud by simp_all
  have "\<exists>rl1 w1 evs1.
     (case domain of None \<Rightarrow> Some (Inr (rl0, w, []))
      | Some d \<Rightarrow> if d = [] then Some (Inr (rl0, w, []))
          else wait_domain (Suc (Suc fuel)) clock delay d (refillDomain (clock w) d rl0) w) =
       Some (Inr (rl1, w1, evs1)) \<and>
     refillRate rl1 = refillRate rl \<and> maxTokens rl1 = maxTokens rl"
  proof (cases "domain = None \<or> domain = Some []")
    case True
    then show ?thesis using f0 by (auto split: option.splits)
  next
    case False
    then obtain d where d: "domain = Some d" "d \<noteq> []" by auto
    obtain b where "domainBuckets rl0 d = Some b"
      using url_domain_bucket ud d by blast
    then obtain b' where b':
      "domainBuckets (refillDomain (clock w) d rl0) d = Some b'" "lastRefill b' = clock w"
      using refillDomain_bucket by blast
    have "\<exists>res. wait_domain (Suc (Suc fuel)) clock delay d (refillDomain (clock w) d rl0) w =
       Some (Inr res)"
      using assms(1,2) f0 b' by (intro wait_domain_returns [where b = b'] timers) auto
    then obtain rl1 w1 evs1 where
      r: "wait_domain (Suc (Suc fuel)) clock delay d (refillDomain (clock w) d rl0) w =
       Some (Inr (rl1, w1, evs1))"
      by (metis prod_cases3)
    show ?thesis
      using r wait_domain_events [OF r] d f0 by simp
  qed
  then obtain rl1 w1 evs1 where
    dom: "(case domain of None \<Rightarrow> Some (Inr (rl0, w, []))
      | Some d \<Rightarrow> if d = [] then Some (Inr (rl0, w, []))
          else wait_domain (Suc (Suc fuel)) clock delay d (refillDomain (clock w) d rl0) w) =
       Some (Inr (rl1, w1, evs1))"
    and f1: "refillRate rl1 = refillRate rl" "maxTokens rl1 = maxTokens rl"
    by blast
  have "\<exists>res. wait_global (Suc (Suc fuel)) clock delay (refill (clock w1) rl1) w1 = Some res"
    using assms(1,2) f1 by (intro wait_global_returns timers) (auto simp: refill_def Let_def)
  then obtain rl2 w2 evs2 where
    "wait_global (Suc (Suc fuel)) clock delay (refill (clock w1) rl1) w1 = Some (rl2, w2, evs2)"
    by (metis prod_cases3)
  then show ?thesis
    using ud dom unfolding waitForToken_def by (simp del: wait_global.simps wait_domain.simps)
qed

lemma limiter_step_within:
  "limiter_step fuel clock delay hostname x rl w = Some (rl', w') \<Longrightarrow> within_capacity rl \<Longrightarrow>
   within_capacity rl' \<and> maxTokens rl' = maxTokens rl"
proof (cases x)
  case (WaitForToken url)
  assume a: "limiter_step fuel clock delay hostname x rl w = Some (rl', w')"
    and i: "within_capacity rl"
  from a WaitForToken obtain evs where
    r: "waitForToken fuel clock delay hostname url rl w = Some (Inr (rl', w', evs))"
    by (auto split: option.splits sum.splits)
  obtain domain rl0 where ud: "url_domain hostname (clock w) url rl = (domain, rl0)"
    by (cases "url_domain hostname (clock w) url rl")
  have "maxTokens rl' = maxTokens rl"
    using r ud url_domain_fields(1) [of hostname "clock w" url rl]
    by (auto simp: waitForToken_def split: option.splits sum.splits prod.splits if_splits
        dest!: wait_domain_events wait_global_events)
  then show ?thesis
    using waitForToken_within [OF r i] by simp
next
  case (AddDelay ms)
  then show "limiter_step fuel clock delay hostname x rl w = Some (rl', w') \<Longrightarrow>
    within_capacity rl \<Longrightarrow> ?thesis" by auto
next
  case GetTokenCount
  then show "limiter_step fuel clock delay hostname x rl w = Some (rl', w') \<Longrightarrow>
    within_capacity rl \<Longrightarrow> ?thesis"
    by (auto simp: getTokenCount_def refill_within)
next
  case (GetDomainTokenCount d)
  then show "limiter_step fuel clock delay hostname x rl w = Some (rl', w') \<Longrightarrow>
    within_capacity rl \<Longrightarrow> ?thesis"
    by (auto simp: getDomainTokenCount_def refillDomain_within split: option.splits)
next
  case Reset
  then show "limiter_step fuel clock delay hostname x rl w = Some (rl', w') \<Longrightarrow>
    within_capacity rl \<Longrightarrow> ?thesis"
    by (auto simp: reset_limiter_def within_capacity_def)
qed

lemma limiter_run_within:
  "limiter_run fuel clock delay hostname ops rl w = Some (rl', w') \<Longrightarrow> within_capacity rl \<Longrightarrow>
   within_capacity rl' \<and> maxTokens rl' = maxTokens rl"
proof (induction ops arbitrary: rl w)
  case Nil
  then show ?case by simp
next
  case (Cons x xs)
  from Cons.prems(1) obtain rl1 w1 where
    s: "limiter_step fuel clock delay hostname x rl w = Some (rl1, w1)"
    and r: "limiter_run fuel clock delay hostname xs rl1 w1 = Some (rl', w')"
    by (auto split: option.splits)
  from limiter_step_within [OF s Cons.prems(2)] Cons.IH [OF r] show ?case by simp
qed

lemma waitForToken_nonneg:
  assumes "waitForToken fuel clock delay hostname url rl w = Some (Inr (rl', w', evs))"
  shows "0 \<le> tokens rl' \<and>
     (\<forall>d x. Domain_token d x \<in> set evs \<longrightarrow> (\<exists>b. domainBuckets rl' d = Some b \<and> 0 \<le> tokens b))"
proof -
  obtain domain rl0 where ud: "url_domain hostname (clock w) url rl = (domain, rl0)"
    by (cases "url_domain hostname (clock w) url rl")
  from assms ud obtain rl1 w1 evs1 evs2 where
    dom: "(case domain of None \<Rightarrow> Some (Inr (rl0, w, []))
           | Some d \<Rightarrow> if d = [] then Some (Inr (rl0, w, []))
               else wait_domain fuel clock delay d (refillDomain (clock w) d rl0) w) =
          Some (Inr (rl1, w1, evs1))"
    and glob: "wait_global fuel clock delay (refill (clock w1) rl1) w1 = Some (rl', w', evs2)"
    and evs: "evs = evs1 @ evs2"
    by (auto simp: waitForToken_def split: option.splits sum.splits prod.splits)
  from wait_global_events [OF glob] obtain ds2 y where
    2: "evs2 = map Delayed ds2 @ [Global_token y]" "tokens rl' = y - 1" "1 \<le> y"
       "domainBuckets rl' = domainBuckets rl1" by auto
  have "\<forall>d x. Domain_token d x \<in> set evs1 \<longrightarrow>
          (\<exists>b. domainBuckets rl1 d = Some b \<and> 0 \<le> tokens b)"
  proof (cases "domain = None \<or> domain = Some []")
    case True
    with dom show ?thesis by (auto split: option.splits)
  next
    case False
    then obtain d where d: "domain = Some d" "d \<noteq> []" by auto
    with dom have r: "wait_domain fuel clock delay d (refillDomain (clock w) d rl0) w =
       Some (Inr (rl1, w1, evs1))" by simp
    from wait_domain_events [OF r] show ?thesis by auto
  qed
  then show ?thesis
    using 2 evs by auto
qed

text \<open>
  Claim C7 (dual-bucket acquire). Let \<open>waitForToken\<close> be called with a URL whose
  hostname is \<open>d\<close> (not empty) and return. Then its events are, in this order: waits on
  the timer, the deduction of one token from the bucket of \<open>d\<close>, which held \<open>x \<ge> 1\<close>
  tokens, waits on the timer, and the deduction of one token from the global bucket,
  which held \<open>y \<ge> 1\<close> tokens. At the return the bucket of \<open>d\<close> holds \<open>x - 1\<close> tokens, what
  the deduction left: nothing is refunded while the caller waits on the global bucket. The
  global bucket holds \<open>y - 1\<close>. The second conjunct says that the call does return: with a
  positive refill rate, a capacity of at least one token and timers that fire no earlier
  than asked, each loop tests its condition at most twice.
\<close>

theorem dual_bucket_acquire:
  "(hostname u = Some d \<and> u \<noteq> [] \<and> d \<noteq> [] \<and>
    waitForToken fuel clock delay hostname (Some u) rl w = Some (Inr (rl', w', evs)) \<longrightarrow>
      (\<exists>ds1 x ds2 y b.
         evs = map Delayed ds1 @ [Domain_token d x] @ map Delayed ds2 @ [Global_token y] \<and>
         1 \<le> x \<and> 1 \<le> y \<and>
         domainBuckets rl' d = Some b \<and> tokens b = x - 1 \<and> tokens rl' = y - 1)) \<and>
   (0 < refillRate rl \<and> 1 \<le> maxTokens rl \<and>
    (\<forall>n w. clock w + n \<le> clock (delay (Millis n) w)) \<longrightarrow>
      (\<exists>res. waitForToken (Suc (Suc fuel)) clock delay hostname url rl w = Some (Inr res)))"
  using waitForToken_events [of hostname u d fuel clock delay rl w rl' w' evs]
    waitForToken_returns [of rl clock delay fuel hostname url w]
  by blast

theorem dual_bucket_acquire_witness:
  "waitForToken 2 id punctual example_hostname (Some ''https://www.example.org/staff'')
      \<lparr> tokens = 1 / 2, lastRefill = 0, maxTokens = 2, refillRate = 1, domainBuckets = Map.empty \<rparr> 0 =
     Some (Inr
       (\<lparr> tokens = 0, lastRefill = 500, maxTokens = 2, refillRate = 1,
          domainBuckets = [''www.example.org'' \<mapsto> \<lparr> tokens = 1, lastRefill = 0 \<rparr>] \<rparr>,
        500,
        [Domain_token ''www.example.org'' 2, Delayed (Millis 500), Global_token 1])) \<and>
   (\<exists>ds1 x ds2 y b.
      [Domain_token ''www.example.org'' 2, Delayed (Millis 500), Global_token 1] =
        map Delayed ds1 @ [Domain_token ''www.example.org'' x] @ map Delayed ds2 @ [Global_token y] \<and>
      1 \<le> x \<and> 1 \<le> y \<and>
      domainBuckets \<lparr> tokens = 0, lastRefill = 500, maxTokens = 2, refillRate = 1,
          domainBuckets = [''www.example.org'' \<mapsto> \<lparr> tokens = 1, lastRefill = 0 \<rparr>] \<rparr>
        ''www.example.org'' = Some b \<and>
      tokens b = x - 1 \<and>
      tokens \<lparr> tokens = 0, lastRefill = 500, maxTokens = 2, refillRate = 1,
          domainBuckets = [''www.example.org'' \<mapsto> \<lparr> tokens = 1, lastRefill = 0 \<rparr>] \<rparr> = y - 1) \<and>
   (\<exists>res. waitForToken (Suc (Suc 2)) id punctual example_hostname
      (Some ''https://www.example.org/staff'')
      \<lparr> tokens = 1 / 2, lastRefill = 0, maxTokens = 2, refillRate = 1, domainBuckets = Map.empty \<rparr> 0 =
     Some (Inr res))"
proof -
  let ?rl = "\<lparr> tokens = 1 / 2, lastRefill = 0, maxTokens = 2, refillRate = 1,
               domainBuckets = Map.empty \<rparr>"
  let ?rl' = "\<lparr> tokens = 0, lastRefill = 500, maxTokens = 2, refillRate = 1,
          domainBuckets = [''www.example.org'' \<mapsto> \<lparr> tokens = 1, lastRefill = 0 \<rparr>] \<rparr>"
  let ?evs = "[Domain_token ''www.example.org'' 2, Delayed (Millis 500), Global_token 1]"
  have run: "waitForToken 2 id punctual example_hostname (Some ''https://www.example.org/staff'')
      ?rl 0 = Some (Inr (?rl', 500, ?evs))"
    by (simp add: waitForToken_def url_domain_def example_hostname_def refillDomain_def
        refill_def wait_millis_def punctual_def numeral_2_eq_2 Let_def)
  have host: "example_hostname ''https://www.example.org/staff'' = Some ''www.example.org''"
    by (simp add: example_hostname_def)
  have timers: "\<forall>n w. id w + n \<le> id (punctual (Millis n) w)"
    by (simp add: punctual_def)
  note th = dual_bucket_acquire [where hostname = example_hostname
        and u = "''https://www.example.org/staff''" and d = "''www.example.org''"
        and fuel = 2 and clock = id and delay = punctual and rl = ?rl
        and w = 0 and rl' = ?rl' and w' = 500 and evs = ?evs
        and url = "Some ''https://www.example.org/staff''"]
  from th run host have first: "\<exists>ds1 x ds2 y b.
      ?evs = map Delayed ds1 @ [Domain_token ''www.example.org'' x] @ map Delayed ds2 @ [Global_token y] \<and>
      1 \<le> x \<and> 1 \<le> y \<and> domainBuckets ?rl' ''www.example.org'' = Some b \<and>
      tokens b = x - 1 \<and> tokens ?rl' = y - 1"
    by blast
  have "0 < refillRate ?rl \<and> 1 \<le> maxTokens ?rl" by simp
  with th timers have second: "\<exists>res. waitForToken (Suc (Suc 2)) id punctual example_hostname
      (Some ''https://www.example.org/staff'') ?rl 0 = Some (Inr res)"
    by blast
  from run first second show ?thesis by blast
qed

lemma new_within: "within_capacity (new_RateLimiter m r now)"
  by (simp add: within_capacity_def new_RateLimiter_def)

text \<open>
  Claim C8 (token bounds). A new limiter has no bucket above \<open>maxTokens\<close>; \<open>refill\<close> and
  \<open>refillDomain\<close> keep it so, whatever the clock reads; so does every sequence of the
  public operations (\<open>waitForToken\<close>, \<open>addDelay\<close>, \<open>getTokenCount\<close>,
  \<open>getDomainTokenCount\<close>, \<open>reset\<close>) that returns, and \<open>maxTokens\<close> does not change. Right
  after a \<open>waitForToken\<close> that returned, the global bucket and the domain bucket a token
  was taken from hold no less than 0 tokens.
\<close>

theorem token_bounds:
  "within_capacity (new_RateLimiter m r now) \<and>
   (within_capacity rl \<longrightarrow>
      within_capacity (refill now rl) \<and> within_capacity (refillDomain now d rl)) \<and>
   (within_capacity rl \<and> limiter_run fuel clock delay hostname ops rl w = Some (rl', w') \<longrightarrow>
      within_capacity rl' \<and> maxTokens rl' = maxTokens rl) \<and>
   (waitForToken fuel clock delay hostname url rl w = Some (Inr (rl1, w1, evs)) \<longrightarrow>
      0 \<le> tokens rl1 \<and>
      (\<forall>d x. Domain_token d x \<in> set evs \<longrightarrow>
         (\<exists>b. domainBuckets rl1 d = Some b \<and> 0 \<le> tokens b)))"
  using new_within [of m r now] refill_within [of rl now] refillDomain_within [of rl now d]
    limiter_run_within [of fuel clock delay hostname ops rl w rl' w']
    waitForToken_nonneg [of fuel clock delay hostname url rl w rl1 w1 evs]
  by blast

theorem token_bounds_witness:
  "limiter_run 2 id punctual example_hostname
     [WaitForToken (Some ''https://www.example.org/staff''), AddDelay 250, GetTokenCount,
      WaitForToken None, GetDomainTokenCount ''www.example.org'']
     (new_RateLimiter 1 2 0) 0 =
     Some (\<lparr> tokens = 0, lastRefill = 500, maxTokens = 1, refillRate = 2,
             domainBuckets = [''www.example.org'' \<mapsto> \<lparr> tokens = 1, lastRefill = 500 \<rparr>] \<rparr>, 500) \<and>
   within_capacity \<lparr> tokens = 0, lastRefill = 500, maxTokens = 1, refillRate = 2,
             domainBuckets = [''www.example.org'' \<mapsto> \<lparr> tokens = 1, lastRefill = 500 \<rparr>] \<rparr> \<and>
   waitForToken 2 id punctual example_hostname (Some ''https://www.example.org/staff'')
      (new_RateLimiter 1 2 0) 0 =
     Some (Inr (\<lparr> tokens = 0, lastRefill = 0, maxTokens = 1, refillRate = 2,
             domainBuckets = [''www.example.org'' \<mapsto> \<lparr> tokens = 0, lastRefill = 0 \<rparr>] \<rparr>, 0,
           [Domain_token ''www.example.org'' 1, Global_token 1]))"
proof -
  let ?ops = "[WaitForToken (Some ''https://www.example.org/staff''), AddDelay 250, GetTokenCount,
      WaitForToken None, GetDomainTokenCount ''www.example.org'']"
  let ?rl' = "\<lparr> tokens = 0, lastRefill = 500, maxTokens = 1, refillRate = 2,
             domainBuckets = [''www.example.org'' \<mapsto> \<lparr> tokens = 1, lastRefill = 500 \<rparr>] \<rparr>"
  let ?rl1 = "\<lparr> tokens = 0, lastRefill = 0, maxTokens = 1, refillRate = 2,
             domainBuckets = [''www.example.org'' \<mapsto> \<lparr> tokens = 0, lastRefill = 0 \<rparr>] \<rparr>"
  have first: "waitForToken 2 id punctual example_hostname (Some ''https://www.example.org/staff'')
      (new_RateLimiter 1 2 0) 0 =
     Some (Inr (?rl1, 0, [Domain_token ''www.example.org'' 1, Global_token 1]))"
    by (simp add: waitForToken_def url_domain_def example_hostname_def refillDomain_def
        refill_def wait_millis_def punctual_def numeral_2_eq_2 Let_def new_RateLimiter_def)
  have second: "waitForToken 2 id punctual example_hostname None
      (snd (getTokenCount 250 ?rl1)) 250 =
     Some (Inr (\<lparr> tokens = 0, lastRefill = 500, maxTokens = 1, refillRate = 2,
             domainBuckets = [''www.example.org'' \<mapsto> \<lparr> tokens = 0, lastRefill = 0 \<rparr>] \<rparr>, 500,
           [Delayed (Millis 250), Global_token 1]))"
    by (simp add: waitForToken_def url_domain_def getTokenCount_def
        refill_def wait_millis_def punctual_def numeral_2_eq_2 Let_def)
  have run: "limiter_run 2 id punctual example_hostname ?ops (new_RateLimiter 1 2 0) 0 =
     Some (?rl', 500)"
    using first second
    by (simp add: getDomainTokenCount_def refillDomain_def punctual_def Let_def)
  from token_bounds [where m = 1 and r = 2 and now = 0 and rl = "new_RateLimiter 1 2 0"
      and fuel = 2 and clock = id and delay = punctual and hostname = example_hostname
      and ops = ?ops and w = 0 and rl' = ?rl' and w' = 500] run
  have "within_capacity ?rl'" by blast
  with run first show ?thesis by blast
qed

section \<open>Properties of ProgressTracker\<close>

lemma getProgress_update:
  "getProgress rid db = Some p \<Longrightarrow>
   update_progress rid f db = (None, db \<lparr> scrape_progress := AList.update rid (f p) (scrape_progress db) \<rparr>)"
  by (simp add: update_progress_def doc_update_def getProgress_def)

lemma getProgress_update_None:
  "getProgress rid db = None \<Longrightarrow> update_progress rid f db = (Some (not_found rid), db)"
  by (simp add: update_progress_def doc_update_def getProgress_def)

lemma getProgress_after_update:
  "getProgress rid db = Some p \<Longrightarrow> getProgress rid (snd (update_progress rid f db)) = Some (f p)"
  by (simp add: getProgress_update) (simp add: getProgress_def update_conv')

lemma getProgress_logs [simp]:
  "getProgress rid (db \<lparr> district_logs := l \<rparr>) = getProgress rid db"
  by (simp add: getProgress_def)

lemma getProgress_initializeRun:
  "getProgress rid (initializeRun rid now n db) =
     Some \<lparr> runId = rid, startedAt = now, updatedAt = now, completedAt = None,
         run_status = Running,
         stats = \<lparr> total = n, pending = n, processing = 0, completed = 0, failed = 0 \<rparr>,
         errors = [], currentDistrict = None, fatalError = None \<rparr>"
  by (simp add: getProgress_def initializeRun_def doc_set_def update_conv')

lemma tracker_step_stats:
  assumes "getProgress rid db = Some p"
  shows "\<exists>p'. getProgress rid (snd (tracker_step rid now x db)) = Some p' \<and>
     stats p' = (stats p)
       \<lparr> pending := pending (stats p) - (if is_start x then 1 else 0),
         processing := processing (stats p) + (if is_start x then 1 else 0)
            - (if is_complete x \<or> is_fail x then 1 else 0),
         completed := completed (stats p) + (if is_complete x then 1 else 0),
         failed := failed (stats p) + (if is_fail x then 1 else 0) \<rparr>"
proof (cases x)
  case (StartDistrict d)
  then show ?thesis
    using assms by (simp add: startDistrict_def getProgress_after_update)
next
  case (CompleteDistrict d n det)
  then show ?thesis
    using assms by (simp add: completeDistrict_def Let_def getProgress_after_update)
next
  case (FailDistrict d err)
  then show ?thesis
    using assms by (simp add: failDistrict_def Let_def getProgress_after_update)
qed

lemma tracker_run_stats:
  assumes "getProgress rid db = Some p"
  shows "\<exists>p'. getProgress rid (tracker_run rid xs db) = Some p' \<and>
     stats p' = (stats p)
       \<lparr> pending := pending (stats p) - count_ops is_start xs,
         processing := processing (stats p) + count_ops is_start xs
            - (count_ops is_complete xs + count_ops is_fail xs),
         completed := completed (stats p) + count_ops is_complete xs,
         failed := failed (stats p) + count_ops is_fail xs \<rparr>"
  using assms
proof (induction xs arbitrary: db p)
  case Nil
  then show ?case by (simp add: count_ops_def)
next
  case (Cons a xs)
  obtain now x where a: "a = (now, x)" by (cases a)
  from tracker_step_stats [OF Cons.prems, of now x] obtain p1 where
    p1: "getProgress rid (snd (tracker_step rid now x db)) = Some p1"
    and s1: "stats p1 = (stats p)
       \<lparr> pending := pending (stats p) - (if is_start x then 1 else 0),
         processing := processing (stats p) + (if is_start x then 1 else 0)
            - (if is_complete x \<or> is_fail x then 1 else 0),
         completed := completed (stats p) + (if is_complete x then 1 else 0),
         failed := failed (stats p) + (if is_fail x then 1 else 0) \<rparr>"
    by blast
  from Cons.IH [OF p1] obtain p' where
    p': "getProgress rid (tracker_run rid xs (snd (tracker_step rid now x db))) = Some p'"
    and s': "stats p' = (stats p1)
       \<lparr> pending := pending (stats p1) - count_ops is_start xs,
         processing := processing (stats p1) + count_ops is_start xs
            - (count_ops is_complete xs + count_ops is_fail xs),
         completed := completed (stats p1) + count_ops is_complete xs,
         failed := failed (stats p1) + count_ops is_fail xs \<rparr>"
    by blast
  show ?case
    using p' s' s1 unfolding a
    by (cases x) (auto simp: count_ops_def)
qed

lemma conserved_step:
  assumes "getProgress rid db = Some p" "conserved (stats p)"
  shows "\<exists>p'. getProgress rid (snd (tracker_step rid now x db)) = Some p' \<and> conserved (stats p')"
proof -
  from tracker_step_stats [OF assms(1), of now x] obtain p' where
    "getProgress rid (snd (tracker_step rid now x db)) = Some p'"
    "stats p' = (stats p)
       \<lparr> pending := pending (stats p) - (if is_start x then 1 else 0),
         processing := processing (stats p) + (if is_start x then 1 else 0)
            - (if is_complete x \<or> is_fail x then 1 else 0),
         completed := completed (stats p) + (if is_complete x then 1 else 0),
         failed := failed (stats p) + (if is_fail x then 1 else 0) \<rparr>"
    by blast
  then show ?thesis
    using assms(2) by (cases x) (auto simp: conserved_def)
qed

lemma conserved_run:
  assumes "getProgress rid db = Some p" "conserved (stats p)"
  shows "\<exists>p'. getProgress rid (tracker_run rid xs db) = Some p' \<and> conserved (stats p')"
proof -
  from tracker_run_stats [OF assms(1), of xs] obtain p' where
    "getProgress rid (tracker_run rid xs db) = Some p'"
    "stats p' = (stats p)
       \<lparr> pending := pending (stats p) - count_ops is_start xs,
         processing := processing (stats p) + count_ops is_start xs
            - (count_ops is_complete xs + count_ops is_fail xs),
         completed := completed (stats p) + count_ops is_complete xs,
         failed := failed (stats p) + count_ops is_fail xs \<rparr>"
    by blast
  then show ?thesis
    using assms(2) by (auto simp: conserved_def)
qed

lemma all_items_done:
  assumes "count_ops is_start xs = n" "count_ops is_complete xs + count_ops is_fail xs = n"
  shows "\<exists>p'. getProgress rid (tracker_run rid xs (initializeRun rid now n db)) = Some p' \<and>
     total (stats p') = n \<and> completed (stats p') + failed (stats p') = n \<and>
     pending (stats p') = 0 \<and> processing (stats p') = 0"
proof -
  from tracker_run_stats [OF getProgress_initializeRun, of rid xs now n db] obtain p' where
    "getProgress rid (tracker_run rid xs (initializeRun rid now n db)) = Some p'"
    "stats p' = \<lparr> total = n, pending = n - count_ops is_start xs,
         processing = count_ops is_start xs - (count_ops is_complete xs + count_ops is_fail xs),
         completed = count_ops is_complete xs, failed = count_ops is_fail xs \<rparr>"
    by auto
  then show ?thesis
    using assms by simp
qed

text \<open>
  Claim C3 (stats conservation). \<open>initializeRun\<close> leaves a run document whose counters
  satisfy \<open>pending + processing + completed + failed = total\<close>; each of \<open>startDistrict\<close>,
  \<open>completeDistrict\<close> and \<open>failDistrict\<close> keeps the equation, and so does every sequence of
  them. When the sequence run after \<open>initializeRun\<close> with \<open>n\<close> items has \<open>n\<close> starts and \<open>n\<close>
  completions or failures (every item went through \<open>startDistrict\<close> and then through
  \<open>completeDistrict\<close> or \<open>failDistrict\<close>, in any interleaving), the counters end with
  \<open>completed + failed = total = n\<close> and \<open>pending = processing = 0\<close>.
\<close>

theorem stats_conservation:
  "(\<exists>p. getProgress rid (initializeRun rid now n db) = Some p \<and> conserved (stats p)) \<and>
   (getProgress rid db = Some p \<and> conserved (stats p) \<longrightarrow>
      (\<exists>p'. getProgress rid (snd (startDistrict rid now d db)) = Some p' \<and> conserved (stats p')) \<and>
      (\<exists>p'. getProgress rid (snd (completeDistrict rid now d found det db)) = Some p' \<and>
         conserved (stats p')) \<and>
      (\<exists>p'. getProgress rid (snd (failDistrict rid now d err db)) = Some p' \<and>
         conserved (stats p')) \<and>
      (\<exists>p'. getProgress rid (tracker_run rid xs db) = Some p' \<and> conserved (stats p'))) \<and>
   (count_ops is_start ys = n \<and> count_ops is_complete ys + count_ops is_fail ys = n \<longrightarrow>
      (\<exists>p'. getProgress rid (tracker_run rid ys (initializeRun rid now n db)) = Some p' \<and>
         total (stats p') = n \<and> completed (stats p') + failed (stats p') = total (stats p') \<and>
         pending (stats p') = 0 \<and> processing (stats p') = 0))"
proof -
  have "\<exists>p. getProgress rid (initializeRun rid now n db) = Some p \<and> conserved (stats p)"
    by (simp add: getProgress_initializeRun conserved_def)
  moreover have "\<exists>p'. getProgress rid (snd (startDistrict rid now d db)) = Some p' \<and>
      conserved (stats p')"
    if "getProgress rid db = Some p" "conserved (stats p)"
    using conserved_step [OF that, of now "StartDistrict d"] by simp
  moreover have "\<exists>p'. getProgress rid (snd (completeDistrict rid now d found det db)) = Some p' \<and>
      conserved (stats p')"
    if "getProgress rid db = Some p" "conserved (stats p)"
    using conserved_step [OF that, of now "CompleteDistrict d found det"] by simp
  moreover have "\<exists>p'. getProgress rid (snd (failDistrict rid now d err db)) = Some p' \<and>
      conserved (stats p')"
    if "getProgress rid db = Some p" "conserved (stats p)"
    using conserved_step [OF that, of now "FailDistrict d err"] by simp
  moreover have "\<exists>p'. getProgress rid (tracker_run rid xs db) = Some p' \<and> conserved (stats p')"
    if "getProgress rid db = Some p" "conserved (stats p)"
    using conserved_run [OF that] .
  moreover have "\<exists>p'. getProgress rid (tracker_run rid ys (initializeRun rid now n db)) = Some p' \<and>
         total (stats p') = n \<and> completed (stats p') + failed (stats p') = total (stats p') \<and>
         pending (stats p') = 0 \<and> processing (stats p') = 0"
    if "count_ops is_start ys = n" "count_ops is_complete ys + count_ops is_fail ys = n"
    using all_items_done [OF that, of rid now db] by auto
  ultimately show ?thesis by blast
qed

theorem stats_conservation_witness:
  "getProgress ''run_1''
     (tracker_run ''run_1''
        [(10, StartDistrict (a_district ''1'' ''Alpha'' None Pending)),
         (11, StartDistrict (a_district ''2'' ''Beta'' None Pending)),
         (12, FailDistrict (a_district ''1'' ''Alpha'' None Pending) ''boom''),
         (13, CompleteDistrict (a_district ''2'' ''Beta'' None Pending) 3 None)]
        (initializeRun ''run_1'' 5 2 empty_db)) =
     Some \<lparr> runId = ''run_1'', startedAt = 5, updatedAt = 13, completedAt = None,
            run_status = Running,
            stats = \<lparr> total = 2, pending = 0, processing = 0, completed = 1, failed = 1 \<rparr>,
            errors = [\<lparr> err_districtId = ''1'', err_districtName = ''Alpha'', err_error = ''boom'',
                        err_timestamp = 12 \<rparr>],
            currentDistrict = None, fatalError = None \<rparr> \<and>
   conserved \<lparr> total = 2, pending = 0, processing = 0, completed = 1, failed = 1 \<rparr>"
  using stats_conservation [where rid = "''run_1''" and now = 5 and n = 2 and db = empty_db
      and ys = "[(10, StartDistrict (a_district ''1'' ''Alpha'' None Pending)),
         (11, StartDistrict (a_district ''2'' ''Beta'' None Pending)),
         (12, FailDistrict (a_district ''1'' ''Alpha'' None Pending) ''boom''),
         (13, CompleteDistrict (a_district ''2'' ''Beta'' None Pending) 3 None)]"]
  by (simp add: count_ops_def conserved_def initializeRun_def empty_db_def doc_set_def
      startDistrict_def completeDistrict_def failDistrict_def update_progress_def doc_update_def
      getProgress_def a_district_def arrayUnion_def Let_def)

section \<open>Properties of the orchestrator\<close>

lemma scraped_append [simp]: "scraped (xs @ ys) = scraped xs @ scraped ys"
  by (induction xs rule: scraped.induct) auto

lemma started_append [simp]: "started (xs @ ys) = started xs @ started ys"
  by (induction xs rule: started.induct) auto

subsection \<open>Relations between the state before and after a step\<close>

lemma preservesI: "(\<And>s. R s (snd (m s))) \<Longrightarrow> preserves R m"
  by (simp add: preserves_def)

lemma preserves_step: "preserves R m \<Longrightarrow> m s = (r, s') \<Longrightarrow> R s s'"
  by (metis preserves_def snd_conv)

lemma preserves_bnd:
  assumes "transp R" "preserves R m" "\<And>a. preserves R (f a)"
  shows "preserves R (bnd m f)"
proof (rule preservesI)
  fix s
  obtain r s' where m: "m s = (r, s')" by (cases "m s")
  have 1: "R s s'" using assms(2) m by (rule preserves_step)
  show "R s (snd (bnd m f s))"
  proof (cases r)
    case (Inl e)
    with m 1 show ?thesis by (simp add: bnd_def)
  next
    case (Inr a)
    have "R s' (snd (f a s'))" using assms(3) [of a] by (simp add: preserves_def)
    with 1 have "R s (snd (f a s'))" using assms(1) by (blast dest: transpD)
    with m Inr show ?thesis by (simp add: bnd_def)
  qed
qed

lemma preserves_try_catch:
  assumes "transp R" "preserves R m" "\<And>e. preserves R (h e)"
  shows "preserves R (try_catch m h)"
proof (rule preservesI)
  fix s
  obtain r s' where m: "m s = (r, s')" by (cases "m s")
  have 1: "R s s'" using assms(2) m by (rule preserves_step)
  show "R s (snd (try_catch m h s))"
  proof (cases r)
    case (Inr a)
    with m 1 show ?thesis by (simp add: try_catch_def)
  next
    case (Inl e)
    have "R s' (snd (h e s'))" using assms(3) [of e] by (simp add: preserves_def)
    with 1 have "R s (snd (h e s'))" using assms(1) by (blast dest: transpD)
    with m Inl show ?thesis by (simp add: try_catch_def)
  qed
qed

lemma preserves_return: "reflp R \<Longrightarrow> preserves R (Pair r)"
  by (simp add: preserves_def reflpD)

lemma preserves_if: "preserves R m \<Longrightarrow> preserves R m' \<Longrightarrow> preserves R (if c then m else m')"
  by simp

lemma preserves_state_if:
  "preserves R m \<Longrightarrow> preserves R m' \<Longrightarrow> preserves R (\<lambda>s. if c s then m s else m' s)"
  by (simp add: preserves_def)

lemma same_keys_order: "transp same_keys" "reflp same_keys"
  by (auto simp: same_keys_def intro!: transpI reflpI)

lemma scrapes_within_order: "transp (scrapes_within A)" "reflp (scrapes_within A)"
  by (rule transpI, unfold scrapes_within_def, blast) (rule reflpI, blast)

lemma same_starts_order: "transp same_starts" "reflp same_starts"
  by (auto simp: same_starts_def intro!: transpI reflpI)

lemma keeps_documents_order: "transp keeps_documents" "reflp keeps_documents"
  by (auto simp: keeps_documents_def same_keys_def intro!: transpI reflpI)

lemma honours_order: "honours ok R \<Longrightarrow> transp R" "honours ok R \<Longrightarrow> reflp R"
  by (simp_all add: honours_def)

lemma honours_world: "honours ok R \<Longrightarrow> R s (s \<lparr> world := w \<rparr>)"
  by (simp add: honours_def)

lemma honours_entry: "honours ok R \<Longrightarrow> ok x \<Longrightarrow> R s (s \<lparr> journal := journal s @ [x] \<rparr>)"
  by (simp add: honours_def)

lemma honours_store: "honours ok R \<Longrightarrow> same_keys (store s) db \<Longrightarrow> R s (s \<lparr> store := db \<rparr>)"
  by (simp add: honours_def)

lemma honours_trans: "honours ok R \<Longrightarrow> R s s1 \<Longrightarrow> R s1 s2 \<Longrightarrow> R s s2"
  by (auto simp: honours_def dest: transpD)

lemma call_frame: "journal (snd (call fn s)) = journal s" "store (snd (call fn s)) = store s"
  by (auto simp: call_def split: prod.splits)

lemma on_store_journal: "journal (snd (on_store env f s)) = journal s"
  by (auto simp: on_store_def split: prod.splits option.splits)

lemma honours_call: "honours ok R \<Longrightarrow> preserves R (call fn)"
  by (auto simp: preserves_def call_def honours_world split: prod.splits)

lemma honours_log_entry: "honours ok R \<Longrightarrow> ok x \<Longrightarrow> preserves R (log_entry x)"
  by (simp add: preserves_def log_entry_def honours_entry)

lemma honours_on_store:
  assumes "honours ok R" "\<And>now db. same_keys db (snd (f now db))"
  shows "preserves R (on_store env f)"
proof (rule preservesI)
  fix s
  have "snd (on_store env f s) = s \<lparr> store := snd (f (time_of env (world s)) (store s)) \<rparr>"
    by (auto simp: on_store_def split: prod.splits option.splits)
  then show "R s (snd (on_store env f s))"
    using honours_store [OF assms(1) assms(2), of s "time_of env (world s)"] by simp
qed

lemma update_keys: "map fst (AList.update k v al) = map fst al" if "k \<in> fst ` set al"
  using that by (induction al) auto

lemma doc_update_keys:
  assumes "doc_update k f docs = Inr docs'"
  shows "map fst docs' = map fst docs"
proof -
  from assms obtain v where v: "map_of docs k = Some v" "docs' = AList.update k (f v) docs"
    by (auto simp: doc_update_def split: option.splits)
  from v(1) have "k \<in> fst ` set docs"
    by (metis domI dom_map_of_conv_image_fst)
  then show ?thesis
    using v(2) by (simp add: update_keys)
qed

lemma update_progress_keys: "same_keys db (snd (update_progress rid f db))"
  by (auto simp: update_progress_def same_keys_def split: sum.splits dest: doc_update_keys)

lemma tracker_keys:
  "same_keys db (snd (startDistrict rid now d db))"
  "same_keys db (snd (completeDistrict rid now d n det db))"
  "same_keys db (snd (failDistrict rid now d err db))"
  "same_keys db (snd (completeRun rid now db))"
  "same_keys db (snd (failRun rid now err db))"
proof -
  have logs: "same_keys db (db \<lparr> district_logs := l \<rparr>)" for l
    by (simp add: same_keys_def)
  show "same_keys db (snd (startDistrict rid now d db))"
    "same_keys db (snd (completeRun rid now db))"
    "same_keys db (snd (failRun rid now err db))"
    by (simp_all add: startDistrict_def completeRun_def failRun_def update_progress_keys)
  show "same_keys db (snd (completeDistrict rid now d n det db))"
    "same_keys db (snd (failDistrict rid now d err db))"
    unfolding completeDistrict_def failDistrict_def Let_def
    by (rule transpD [OF same_keys_order(1) logs update_progress_keys])+
qed

lemma updateDistrictStatus_keys: "same_keys db (snd (updateDistrictStatus now k st err db))"
  by (auto simp: updateDistrictStatus_def same_keys_def split: sum.splits dest: doc_update_keys)

lemma withRetry_loop_relation:
  assumes "\<And>w r w'. fn w = (r, w') \<Longrightarrow> Q w w'" "transp Q" "reflp Q"
    and "withRetry_loop js fn opts attempt le w = (r, t, w')"
  shows "Q w w'"
  using assms
proof (induction js fn opts attempt le w arbitrary: r t w' rule: withRetry_loop.induct)
  case (1 js fn opts attempt lastError w)
  note step = "1.prems"(1) and tr = "1.prems"(2) and rf = "1.prems"(3) and res = "1.prems"(4)
  obtain r0 w0 where fn: "fn w = (r0, w0)" by (cases "fn w")
  have q0: "Q w w0" using fn by (rule step)
  show ?case
  proof (cases "attempt \<le> maxRetries opts")
    case False
    with res have "w' = w" by (subst (asm) withRetry_loop.simps) simp
    then show ?thesis using rf by (simp add: reflpD)
  next
    case le: True
    show ?thesis
    proof (cases r0)
      case (Inr v)
      with res le fn have "w' = w0" by (subst (asm) withRetry_loop.simps) simp
      with q0 show ?thesis by simp
    next
      case (Inl e)
      show ?thesis
      proof (cases "isRetryableError js e (retryableErrors opts) \<and> (\<exists>m. get_message e = Inr m) \<and>
          attempt \<noteq> maxRetries opts \<and> onRetry opts e (attempt + 1) = None")
        case False
        with res le fn Inl have "w' = w0"
          by (subst (asm) withRetry_loop.simps) (auto split: sum.splits option.splits if_splits)
        with q0 show ?thesis by simp
      next
        case True
        then obtain m where m: "get_message e = Inr m" by blast
        obtain r1 t1 w1 where rec: "withRetry_loop js fn opts (attempt + 1) e w0 = (r1, t1, w1)"
          by (metis prod_cases3)
        have "Q w0 w1"
          using le fn Inl True m rec
          by (intro "1.IH" [of r0 w0 e m r1 t1 w1] step tr rf) auto
        moreover have "w' = w1"
          using res le fn Inl True m rec by (subst (asm) withRetry_loop.simps) simp
        ultimately show ?thesis using q0 tr by (blast dest: transpD)
      qed
    qed
  qed
qed

lemma save_contacts_frame:
  "districts (store (snd (save_contacts env d cs s))) = districts (store s)"
  "scrape_progress (store (snd (save_contacts env d cs s))) = scrape_progress (store s)"
  "district_logs (store (snd (save_contacts env d cs s))) = district_logs (store s)"
  "\<exists>t. journal (snd (save_contacts env d cs s)) = journal s @ [Save_contacts (district_id d) t]"
proof -
  define Q :: "Firestore \<times> 'a \<Rightarrow> Firestore \<times> 'a \<Rightarrow> bool" where
    "Q = (\<lambda>x y. districts (fst y) = districts (fst x) \<and>
            scrape_progress (fst y) = scrape_progress (fst x) \<and>
            district_logs (fst y) = district_logs (fst x))"
  have order: "transp Q" "reflp Q"
    by (auto simp: Q_def intro!: transpI reflpI)
  let ?dc = "\<lparr> dc_districtId = district_id d, dc_districtName = name d, dc_county = county d,
          dc_website = website d, contacts = cs, scrapedAt = time_of env (world s) \<rparr>"
  have step: "Q x y" if "save_attempt env ?dc x = (r, y)" for x r y
    using that
    by (cases x) (auto simp: Q_def save_attempt_def saveDistrictContacts_def
        split: prod.splits sum.splits)
  obtain r t db' w' where
    wr: "withRetry (runtime env) (save_attempt env ?dc) RetryConfigs_database (store s, world s) = (r, t, (db', w'))"
    by (metis prod_cases3 surj_pair)
  have "Q (store s, world s) (db', w')"
    using step order wr [unfolded withRetry_def] by (rule withRetry_loop_relation)
  then have same: "districts db' = districts (store s)"
    "scrape_progress db' = scrape_progress (store s)"
    "district_logs db' = district_logs (store s)"
    by (simp_all add: Q_def)
  show "districts (store (snd (save_contacts env d cs s))) = districts (store s)"
    "scrape_progress (store (snd (save_contacts env d cs s))) = scrape_progress (store s)"
    "district_logs (store (snd (save_contacts env d cs s))) = district_logs (store s)"
    "\<exists>t. journal (snd (save_contacts env d cs s)) = journal s @ [Save_contacts (district_id d) t]"
    using wr same by (simp_all add: save_contacts_def Let_def)
qed

subsection \<open>The steps of processDistrict\<close>

lemma honours_acquire:
  fixes R :: "'w orch \<Rightarrow> 'w orch \<Rightarrow> bool"
  assumes "honours ok R" "\<And>t. ok (Scrape (district_id d) t)" "ok (Captcha_detected (name d))"
  shows "preserves R (acquire env d domain)"
proof (rule preservesI)
  fix s :: "'w orch"
  show "R s (snd (acquire env d domain s))"
  proof (cases "truthy (website d)")
    case False
    then show ?thesis
      using honours_order(2) [OF assms(1)] by (simp add: acquire_def reflpD)
  next
    case True
    obtain r t w where wr: "withRetry (runtime env) (scrapeDistrict env d) RetryConfigs_network (world s) = (r, t, w)"
      by (metis prod_cases3)
    let ?s0 = "s \<lparr> world := w \<rparr>"
    let ?s1 = "?s0 \<lparr> journal := journal ?s0 @ [Scrape (district_id d) t] \<rparr>"
    let ?s2 = "?s1 \<lparr> journal := journal ?s1 @ [Captcha_detected (name d)] \<rparr>"
    have 1: "R s ?s1"
      using honours_trans [OF assms(1) honours_world [OF assms(1)] honours_entry [OF assms(1) assms(2)]] .
    have 2: "R s ?s2"
      using honours_trans [OF assms(1) 1 honours_entry [OF assms(1) assms(3)]] .
    have "snd (acquire env d domain s) = ?s1 \<or> snd (acquire env d domain s) = ?s2"
      using True wr by (auto simp: acquire_def Let_def split: sum.splits)
    then show ?thesis using 1 2 by auto
  qed
qed

lemma honours_save_contacts:
  fixes R :: "'w orch \<Rightarrow> 'w orch \<Rightarrow> bool"
  assumes "honours ok R" "\<And>t. ok (Save_contacts (district_id d) t)"
  shows "preserves R (save_contacts env d cs)"
proof (rule preservesI)
  fix s :: "'w orch"
  obtain r t db w where
    wr: "withRetry (runtime env) (save_attempt env
        \<lparr> dc_districtId = district_id d, dc_districtName = name d, dc_county = county d,
          dc_website = website d, contacts = cs, scrapedAt = time_of env (world s) \<rparr>)
        RetryConfigs_database (store s, world s) = (r, t, (db, w))"
    by (metis prod_cases3 surj_pair)
  then have eq: "snd (save_contacts env d cs s) =
     s \<lparr> store := db, world := w, journal := journal s @ [Save_contacts (district_id d) t] \<rparr>"
    by (simp add: save_contacts_def Let_def)
  have "same_keys (store s) db"
    using save_contacts_frame(1,2) [of env d cs s] eq by (simp add: same_keys_def)
  then have 1: "R s (s \<lparr> store := db \<rparr>)"
    by (rule honours_store [OF assms(1)])
  let ?s0 = "s \<lparr> store := db \<rparr>"
  let ?s1 = "?s0 \<lparr> world := w \<rparr>"
  let ?s2 = "?s1 \<lparr> journal := journal ?s1 @ [Save_contacts (district_id d) t] \<rparr>"
  have "R s ?s2"
    using honours_trans [OF assms(1) honours_trans [OF assms(1) 1 honours_world [OF assms(1)]]
        honours_entry [OF assms(1) assms(2)]] .
  then show "R s (snd (save_contacts env d cs s))"
    by (simp add: eq)
qed

lemma honours_add_cde:
  assumes "honours ok R"
  shows "preserves R (add_cde env d found)"
  unfolding add_cde_def Let_def
  by (intro preserves_bnd honours_call [OF assms] preserves_return honours_order [OF assms])

lemma honours_verify_contacts:
  assumes "honours ok R"
  shows "preserves R (verify_contacts env cs)"
  unfolding verify_contacts_def Let_def
  by (intro preserves_if preserves_bnd honours_call [OF assms] preserves_return
      honours_order [OF assms])

lemma honours_finish:
  assumes "honours ok R" "\<And>x. pipeline_entry d x \<Longrightarrow> ok x"
  shows "preserves R (finish env rid d domain cs)"
  unfolding finish_def
  by (intro preserves_bnd honours_save_contacts [OF assms(1)] honours_on_store [OF assms(1)]
      honours_log_entry [OF assms(1)] honours_order [OF assms(1)] assms(2)
      updateDistrictStatus_keys tracker_keys) simp_all

lemma honours_rate_limit:
  assumes "honours ok R" "ok (Rate_limit site)"
  shows "preserves R (\<lambda>s. (Inr (), s \<lparr> world := w s, journal := journal s @ [Rate_limit site] \<rparr>))"
proof (rule preservesI)
  fix s
  let ?s0 = "s \<lparr> world := w s \<rparr>"
  have "R s (?s0 \<lparr> journal := journal ?s0 @ [Rate_limit site] \<rparr>)"
    using honours_trans [OF assms(1) honours_world [OF assms(1)] honours_entry [OF assms(1) assms(2)]] .
  then show "R s (snd (Inr (), s \<lparr> world := w s, journal := journal s @ [Rate_limit site] \<rparr>))"
    by simp
qed

lemma honours_pipeline:
  assumes "honours ok R" "\<And>x. pipeline_entry d x \<Longrightarrow> ok x"
  shows "preserves R (pipeline env rid d)"
  unfolding pipeline_def Let_def
  by (intro preserves_bnd honours_on_store [OF assms(1)] honours_rate_limit [OF assms(1)]
      honours_acquire [OF assms(1)] honours_add_cde [OF assms(1)]
      honours_verify_contacts [OF assms(1)] honours_finish [OF assms(1)]
      honours_order [OF assms(1)] assms(2) updateDistrictStatus_keys tracker_keys) simp_all

lemma honours_record_failure:
  assumes "honours ok R" "\<And>x. pipeline_entry d x \<Longrightarrow> ok x"
  shows "preserves R (record_failure env rid d e)"
  unfolding record_failure_def Let_def
  by (intro preserves_bnd honours_on_store [OF assms(1)] honours_log_entry [OF assms(1)]
      honours_order [OF assms(1)] assms(2) updateDistrictStatus_keys tracker_keys) simp_all

text \<open>The \<open>try\<close> and \<open>catch\<close> of \<open>processDistrict\<close>, after the first entry.\<close>

lemma honours_guarded:
  assumes "honours ok R" "\<And>x. pipeline_entry d x \<Longrightarrow> ok x"
  shows "preserves R
     (try_catch
        (\<lambda>s. if isDistrictProcessed rid (district_id d) (store s)
              then log_entry (Skipping (name d)) s else pipeline env rid d s)
        (record_failure env rid d))"
  by (intro preserves_try_catch preserves_state_if honours_log_entry [OF assms(1)]
      honours_pipeline [OF assms(1)] honours_record_failure [OF assms(1)]
      honours_order [OF assms(1)] assms(2)) simp_all

lemma honours_processDistrict:
  assumes "honours ok R" "\<And>x. pipeline_entry d x \<Longrightarrow> ok x" "ok (District_start (district_id d))"
  shows "preserves R (processDistrict env rid d)"
  unfolding processDistrict_def
  by (intro preserves_bnd honours_log_entry [OF assms(1)] honours_guarded [OF assms(1)]
      honours_order [OF assms(1)] assms(2,3))

subsection \<open>The three relations\<close>

lemma honours_scrapes_within:
  "honours (\<lambda>x. set (scraped [x]) \<subseteq> A) (scrapes_within A)"
  unfolding honours_def
  by (intro conjI scrapes_within_order) (auto simp: scrapes_within_def)

lemma honours_same_starts: "honours (\<lambda>x. started [x] = []) same_starts"
  unfolding honours_def
  by (intro conjI same_starts_order) (auto simp: same_starts_def)

lemma honours_keeps_documents: "honours (\<lambda>x. True) keeps_documents"
  unfolding honours_def
  by (intro conjI keeps_documents_order) (auto simp: keeps_documents_def same_keys_order(2) reflpD)

lemma pipeline_entry_scraped: "pipeline_entry d x \<Longrightarrow> set (scraped [x]) \<subseteq> {district_id d}"
  by (cases x) auto

lemma pipeline_entry_started: "pipeline_entry d x \<Longrightarrow> started [x] = []"
  by (cases x) auto

lemma processDistrict_scrapes:
  "processDistrict env rid d s = (r, s') \<Longrightarrow>
   set (scraped (journal s')) \<subseteq> set (scraped (journal s)) \<union> {district_id d}"
  using preserves_step [OF honours_processDistrict [OF honours_scrapes_within, of d "{district_id d}" env rid]]
  by (simp add: scrapes_within_def pipeline_entry_scraped)

lemma processDistrict_started:
  "processDistrict env rid d s = (r, s') \<Longrightarrow>
   started (journal s') = started (journal s) @ [district_id d]"
proof -
  assume p: "processDistrict env rid d s = (r, s')"
  let ?s0 = "s \<lparr> journal := journal s @ [District_start (district_id d)] \<rparr>"
  let ?m = "try_catch
        (\<lambda>s. if isDistrictProcessed rid (district_id d) (store s)
              then log_entry (Skipping (name d)) s else pipeline env rid d s)
        (record_failure env rid d)"
  have "?m ?s0 = (r, s')"
    using p by (simp add: processDistrict_def bnd_def log_entry_def)
  then have "same_starts ?s0 s'"
    using honours_guarded [OF honours_same_starts pipeline_entry_started]
    by (rule preserves_step [rotated])
  then show ?thesis by (simp add: same_starts_def)
qed

lemma processDistrict_documents:
  "processDistrict env rid d s = (r, s') \<Longrightarrow> same_keys (store s) (store s')"
  using preserves_step [OF honours_processDistrict [OF honours_keeps_documents, of d env rid]]
  by (simp add: keeps_documents_def)

subsection \<open>Batches and the run\<close>

lemma scraped_processBatch:
  "set (scraped (journal (processBatch env rid ds s))) \<subseteq>
     set (scraped (journal s)) \<union> district_id ` set ds"
proof (induction ds arbitrary: s)
  case Nil
  then show ?case by simp
next
  case (Cons d ds)
  obtain r s' where p: "processDistrict env rid d s = (r, s')"
    by (cases "processDistrict env rid d s")
  have 1: "set (scraped (journal s')) \<subseteq> set (scraped (journal s)) \<union> {district_id d}"
    using p by (rule processDistrict_scrapes)
  let ?s = "case r of Inr u \<Rightarrow> s'
     | Inl e \<Rightarrow> s' \<lparr> journal := journal s' @ [Console_error (name d)] \<rparr>"
  have 2: "scraped (journal ?s) = scraped (journal s')"
    by (cases r) auto
  have "set (scraped (journal (processBatch env rid ds ?s))) \<subseteq>
     set (scraped (journal ?s)) \<union> district_id ` set ds"
    by (rule Cons.IH)
  then show ?case
    using 1 2 p by (cases r) auto
qed

declare batches.simps [simp del]

lemma scraped_batches:
  "set (scraped (journal (batches env rid ds s))) \<subseteq>
     set (scraped (journal s)) \<union> district_id ` set ds"
proof (induction env rid ds s rule: batches.induct)
  case (1 env rid ds s)
  show ?case
  proof (cases "ds = []")
    case True
    then show ?thesis by (subst batches.simps) simp
  next
    case False
    let ?s1 = "processBatch env rid (take 50 ds) s"
    let ?s2 = "if getProgress rid (store ?s1) \<noteq> None
               then ?s1 \<lparr> journal := journal ?s1 @ [Progress_line] \<rparr> else ?s1"
    let ?s3 = "?s2 \<lparr> world := timer env 5000 (world ?s2), journal := journal ?s2 @ [Pause 5000] \<rparr>"
    have b: "set (scraped (journal ?s1)) \<subseteq> set (scraped (journal s)) \<union> district_id ` set (take 50 ds)"
      by (rule scraped_processBatch)
    have s2: "scraped (journal ?s2) = scraped (journal ?s1)" by simp
    have s3: "scraped (journal ?s3) = scraped (journal ?s1)" by simp
    have tk: "set (take 50 ds) \<subseteq> set ds" "set (drop 50 ds) \<subseteq> set ds"
      by (auto dest: in_set_takeD in_set_dropD)
    show ?thesis
    proof (cases "drop 50 ds = []")
      case True
      have "batches env rid ds s = ?s2"
        using False True by (subst batches.simps) (simp add: Let_def)
      then show ?thesis using b s2 tk by auto
    next
      case nonempty: False
      have eq: "batches env rid ds s = batches env rid (drop 50 ds) ?s3"
        using False nonempty by (subst batches.simps) (simp add: Let_def)
      have ih: "set (scraped (journal (batches env rid (drop 50 ds) ?s3))) \<subseteq>
         set (scraped (journal ?s3)) \<union> district_id ` set (drop 50 ds)"
        using False nonempty by (intro "1.IH") auto
      have "set (scraped (journal (batches env rid ds s))) \<subseteq>
         set (scraped (journal ?s1)) \<union> district_id ` set (drop 50 ds)"
        using ih unfolding eq s3 .
      then show ?thesis
        using b tk by blast
    qed
  qed
qed

lemma initialize_frame:
  "initialize env s = (r, s') \<Longrightarrow> store s' = store s \<and> journal s' = journal s"
  by (auto simp: initialize_def bnd_def call_def split: prod.splits sum.splits)

lemma total_getProcessingStats:
  "(total (getProcessingStats db) = 0) = (districts db = [])"
  by (simp add: getProcessingStats_def Let_def)

lemma loadOrGetDistricts_frame:
  "loadOrGetDistricts env s = (r, s') \<Longrightarrow>
   journal s' = journal s \<and>
   (districts (store s) \<noteq> [] \<longrightarrow> r = Inr (getPendingDistricts (store s)) \<and> store s' = store s)"
  by (auto simp: loadOrGetDistricts_def total_getProcessingStats bnd_def call_def
      split: prod.splits sum.splits if_splits)

lemma scraped_run_body:
  assumes "k \<in> set (scraped (journal (snd (run_body env s))))" "districts (store s) \<noteq> []"
  shows "k \<in> set (scraped (journal s)) \<or>
     k \<in> district_id ` set (getPendingDistricts (store s))"
proof -
  obtain r1 s1 where i: "initialize env s = (r1, s1)" by (cases "initialize env s")
  note f1 = initialize_frame [OF i]
  show ?thesis
  proof (cases r1)
    case (Inl e)
    with assms(1) i f1 show ?thesis by (simp add: run_body_def bnd_def)
  next
    case (Inr u)
    obtain r2 s2 where l: "loadOrGetDistricts env s1 = (r2, s2)"
      by (cases "loadOrGetDistricts env s1")
    from loadOrGetDistricts_frame [OF l] f1 assms(2)
    have f2: "journal s2 = journal s" "r2 = Inr (getPendingDistricts (store s))"
      by auto
    show ?thesis
    proof (cases "progressTracker s2")
      case None
      with assms(1) i Inr l f2 show ?thesis by (simp add: run_body_def bnd_def)
    next
      case (Some rid)
      let ?ds = "getPendingDistricts (store s)"
      let ?s1 = "s2 \<lparr> store := initializeRun rid (time_of env (world s2)) (int (length ?ds)) (store s2) \<rparr>"
      let ?todo = "filter (\<lambda>d. district_id d \<in> set (getUnprocessedDistricts rid (store ?s1))) ?ds"
      let ?s2 = "batches env rid ?todo ?s1"
      have "journal (snd (run_body env s)) =
         journal (snd (bnd (on_store env (completeRun rid))
            (\<lambda>u s3. call (exportResults env (store s3)) s3) ?s2))"
        using i Inr l f2 Some by (simp add: run_body_def bnd_def Let_def)
      also have "\<dots> = journal ?s2"
        by (auto simp: bnd_def on_store_journal call_frame split: prod.splits sum.splits
            dest: arg_cong [where f = "\<lambda>x. journal (snd x)"])
      finally have "k \<in> set (scraped (journal ?s2))" using assms(1) by simp
      then have "k \<in> set (scraped (journal ?s1)) \<or> k \<in> district_id ` set ?todo"
        using scraped_batches [of env rid ?todo ?s1] by auto
      then show ?thesis using f2 by auto
    qed
  qed
qed

lemma run_failed_journal: "scraped (journal (snd (run_failed env e s))) = scraped (journal s)"
  by (auto simp: run_failed_def bnd_def log_entry_def on_store_def
      split: prod.splits sum.splits option.splits)

lemma scraped_run:
  assumes "k \<in> set (scraped (journal (snd (run env s))))" "districts (store s) \<noteq> []"
  shows "k \<in> set (scraped (journal s)) \<or>
     k \<in> district_id ` set (getPendingDistricts (store s))"
proof -
  obtain r1 s1 where b: "run_body env s = (r1, s1)" by (cases "run_body env s")
  obtain r2 s2 where t: "try_catch (run_body env) (run_failed env) s = (r2, s2)"
    by (cases "try_catch (run_body env) (run_failed env) s")
  have "scraped (journal s2) = scraped (journal s1)"
    using b t run_failed_journal [of env _ s1]
    by (cases r1) (auto simp: try_catch_def dest: arg_cong [where f = "\<lambda>x. scraped (journal (snd x))"])
  moreover have "journal (snd (run env s)) = journal s2"
    using t call_frame(1) [of "cleanup env" s2]
    by (auto simp: run_def split: prod.splits sum.splits)
  ultimately have "k \<in> set (scraped (journal (snd (run_body env s))))"
    using assms(1) b by simp
  then show ?thesis
    using assms(2) by (rule scraped_run_body)
qed

lemma set_getUnprocessedDistricts:
  "set (getUnprocessedDistricts rid db) =
     {k. \<exists>d. (k, d) \<in> set (districts db) \<and> (status d = Pending \<or> status d = Processing)} -
     {k. \<exists>l. l \<in> set (district_logs db) \<and> log_runId l = rid \<and> log_status l = Success \<and>
            log_districtId l = k}"
  by (auto simp: getUnprocessedDistricts_def Let_def image_iff)

lemma not_pending_not_scraped:
  assumes "keyed_by_id (store s)" "distinct (map fst (districts (store s)))"
    "(k, d) \<in> set (districts (store s))" "status d \<noteq> Pending"
    "k \<notin> set (scraped (journal s))"
  shows "k \<notin> set (scraped (journal (snd (run env s))))"
proof
  assume "k \<in> set (scraped (journal (snd (run env s))))"
  moreover have "districts (store s) \<noteq> []" using assms(3) by auto
  ultimately have "k \<in> district_id ` set (getPendingDistricts (store s))"
    using scraped_run assms(5) by blast
  then obtain d' k' where d': "(k', d') \<in> set (districts (store s))" "status d' = Pending"
    "district_id d' = k"
    by (auto simp: getPendingDistricts_def)
  then have "k' = k" using assms(1) by (auto simp: keyed_by_id_def)
  then have "d' = d"
    using d'(1) assms(2,3) by (metis distinct_map eq_key_imp_eq_value)
  then show False using d'(2) assms(4) by simp
qed

text \<open>
  Claim C4 (resumability). The set of ids that \<open>getUnprocessedDistricts\<close> returns is the
  set of the ids of the districts whose status in Firestore is pending or processing,
  minus the ids that have a log of this run with status success. When the districts are
  stored under their ids, a run hands no district to the scraper whose status is not
  pending when the run starts: not a district that an earlier run has completed.
\<close>

theorem resumability:
  "set (getUnprocessedDistricts rid db) =
     {k. \<exists>d. (k, d) \<in> set (districts db) \<and> (status d = Pending \<or> status d = Processing)} -
     {k. \<exists>l. l \<in> set (district_logs db) \<and> log_runId l = rid \<and> log_status l = Success \<and>
            log_districtId l = k} \<and>
   (keyed_by_id (store s) \<and> distinct (map fst (districts (store s))) \<and>
    (k, d) \<in> set (districts (store s)) \<and> status d \<noteq> Pending \<and>
    k \<notin> set (scraped (journal s)) \<longrightarrow>
      k \<notin> set (scraped (journal (snd (run env s)))))"
  using set_getUnprocessedDistricts [of rid db] not_pending_not_scraped [of s k d env]
  by blast

theorem resumability_witness:
  "getUnprocessedDistricts ''run_new'' five_districts = [''4'', ''5''] \<and>
   set (getUnprocessedDistricts ''run_new'' five_districts) = {''4'', ''5''} \<and>
   ''1'' \<notin> set (scraped (journal (snd (run quiet_env (idle five_districts 0))))) \<and>
   ''2'' \<notin> set (scraped (journal (snd (run quiet_env (idle five_districts 0))))) \<and>
   ''3'' \<notin> set (scraped (journal (snd (run quiet_env (idle five_districts 0))))) \<and>
   scraped (journal (snd (run quiet_env (idle five_districts 0)))) = [''4'', ''5'']"
proof -
  have u: "getUnprocessedDistricts ''run_new'' five_districts = [''4'', ''5'']"
    by (simp add: getUnprocessedDistricts_def five_districts_def empty_db_def a_district_def
        old_log_def)
  have k: "keyed_by_id (store (idle five_districts (0::int)))"
    "distinct (map fst (districts (store (idle five_districts (0::int)))))"
    "scraped (journal (idle five_districts (0::int))) = []"
    by (simp_all add: keyed_by_id_def idle_def five_districts_def empty_db_def a_district_def)
  have m: "(''1'', a_district ''1'' ''District 1'' (Some ''https://d1.example.org'') Completed)
        \<in> set (districts (store (idle five_districts (0::int))))"
     "(''2'', a_district ''2'' ''District 2'' (Some ''https://d2.example.org'') Completed)
        \<in> set (districts (store (idle five_districts (0::int))))"
     "(''3'', a_district ''3'' ''District 3'' (Some ''https://d3.example.org'') Completed)
        \<in> set (districts (store (idle five_districts (0::int))))"
    by (simp_all add: idle_def five_districts_def empty_db_def)
  have st: "status (a_district k n site Completed) \<noteq> Pending" for k n site
    by (simp add: a_district_def)
  note th = resumability [where rid = "''run_new''" and db = five_districts
      and s = "idle five_districts (0::int)" and env = quiet_env]
  have 1: "''1'' \<notin> set (scraped (journal (snd (run quiet_env (idle five_districts 0)))))"
    using th [of "''1''" "a_district ''1'' ''District 1'' (Some ''https://d1.example.org'') Completed"]
      k m(1) st by simp
  have 2: "''2'' \<notin> set (scraped (journal (snd (run quiet_env (idle five_districts 0)))))"
    using th [of "''2''" "a_district ''2'' ''District 2'' (Some ''https://d2.example.org'') Completed"]
      k m(2) st by simp
  have 3: "''3'' \<notin> set (scraped (journal (snd (run quiet_env (idle five_districts 0)))))"
    using th [of "''3''" "a_district ''3'' ''District 3'' (Some ''https://d3.example.org'') Completed"]
      k m(3) st by simp
  have r: "scraped (journal (snd (run quiet_env (idle five_districts 0)))) = [''4'', ''5'']"
    by code_simp
  show ?thesis
    using u 1 2 3 r by simp
qed

lemma network_options:
  "maxRetries_opt RetryConfigs_network = Some 5"
  "retryableErrors (spread DEFAULT_OPTIONS RetryConfigs_network) = []"
  "onRetry (spread DEFAULT_OPTIONS RetryConfigs_network) e n = None"
  by (simp_all add: RetryConfigs_network_def no_options_def spread_def DEFAULT_OPTIONS_def)

lemma acquire_captcha:
  assumes "truthy (website d)"
    and "fails_with (scrapeDistrict env d) (world s) (es @ [e])" "length es = 5"
    and "list_all (\<lambda>x. \<not> is_nullish x) (es @ [e])"
    and "get_message e = Inr (Some ''CAPTCHA_DETECTED'')"
  shows "acquire env d domain s =
     (Inr (case domain of None \<Rightarrow> []
           | Some host \<Rightarrow> if host = [] then []
               else map department_contact (generateDepartmentEmails host)),
      s \<lparr> world := world_after (scrapeDistrict env d) 6 (world s),
          journal := journal s @
            [Scrape (district_id d)
               (retry_events (runtime env) (spread DEFAULT_OPTIONS RetryConfigs_network) 0 es @
                [Invoked, Logger_error]),
             Captcha_detected (name d)] \<rparr>)"
proof -
  have "list_all (retryable_failure (runtime env) (spread DEFAULT_OPTIONS RetryConfigs_network)) (es @ [e])"
    using assms(4) by (auto simp: retryable_failure_def network_options isRetryableError_empty
        list_all_iff)
  then have "withRetry (runtime env) (scrapeDistrict env d) RetryConfigs_network (world s) =
    (Inl e, retry_events (runtime env) (spread DEFAULT_OPTIONS RetryConfigs_network) 0 es @ [Invoked, Logger_error],
     world_after (scrapeDistrict env d) (Suc (length es)) (world s))"
    using assms(2,3) by (intro withRetry_gives_up) (simp_all add: network_options)
  then show ?thesis
    using assms(1,3,5) by (simp add: acquire_def Let_def eval_nat_numeral)
qed

subsection \<open>The fallback after a CAPTCHA\<close>

lemma bnd_InrE:
  "bnd m f s = (Inr b, s') \<Longrightarrow> \<exists>a s1. m s = (Inr a, s1) \<and> f a s1 = (Inr b, s')"
  by (auto simp: bnd_def split: prod.splits sum.splits)

lemma updateDistrictStatus_done:
  assumes "updateDistrictStatus now k st err db = (None, db')"
  shows "\<exists>d'. map_of (districts db') k = Some d' \<and> status d' = st \<and>
     (truthy err \<longrightarrow> error d' = err) \<and>
     (st = Completed \<or> st = Failed \<longrightarrow> processedAt d' = Some now)"
  using assms
  by (cases err)
     (auto simp: updateDistrictStatus_def doc_update_def update_conv' Let_def
       split: option.splits sum.splits if_splits)

lemma on_store_done:
  "on_store env f s = (Inr u, s') \<Longrightarrow>
   f (time_of env (world s)) (store s) = (None, store s') \<and> journal s' = journal s \<and> world s' = world s"
  by (auto simp: on_store_def split: prod.splits option.splits)

lemma tracker_districts:
  "districts (snd (startDistrict rid now d db)) = districts db"
  "districts (snd (completeDistrict rid now d n det db)) = districts db"
  "districts (snd (failDistrict rid now d err db)) = districts db"
  by (auto simp: startDistrict_def completeDistrict_def failDistrict_def update_progress_def
      Let_def split: sum.splits)

lemma finish_completed:
  assumes "finish env rid d domain cs s = (Inr u, s')"
  shows "\<exists>d'. map_of (districts (store s')) (district_id d) = Some d' \<and> status d' = Completed"
proof -
  from assms obtain s1 s2 s3 where
    2: "on_store env (\<lambda>now. updateDistrictStatus now (district_id d) Completed None) s1 = (Inr (), s2)"
    and 3: "on_store env (\<lambda>now. completeDistrict rid now d (int (length cs))
                      (Some \<lparr> details_domain = domain,
                              verifiedEmails = length (filter (\<lambda>c. emailStatus c = Some Verified) cs),
                              generatedEmails = length (filter (\<lambda>c. emailStatus c = Some Generated) cs) \<rparr>)) s2
            = (Inr (), s3)"
    and 4: "log_entry (District_complete (district_id d) (int (length cs))) s3 = (Inr u, s')"
    unfolding finish_def by (auto dest!: bnd_InrE)
  from on_store_done [OF 2] updateDistrictStatus_done obtain d' where
    "map_of (districts (store s2)) (district_id d) = Some d'" "status d' = Completed"
    by blast
  moreover have "districts (store s3) = districts (store s2)"
    using on_store_done [OF 3] tracker_districts(2) by (metis snd_conv)
  moreover have "store s' = store s3"
    using 4 by (auto simp: log_entry_def)
  ultimately show ?thesis by simp
qed

lemma pipeline_completed:
  assumes "pipeline env rid d s = (Inr u, s')"
  shows "\<exists>d'. map_of (districts (store s')) (district_id d) = Some d' \<and> status d' = Completed"
proof -
  from assms obtain cs s1 where
    "finish env rid d (extractDomainFromWebsite env (website d)) cs s1 = (Inr u, s')"
    unfolding pipeline_def Let_def by (auto dest!: bnd_InrE)
  then show ?thesis by (rule finish_completed)
qed

lemma processDistrict_pipeline:
  assumes "\<not> isDistrictProcessed rid (district_id d) (store s)"
    and "pipeline env rid d (s \<lparr> journal := journal s @ [District_start (district_id d)] \<rparr>) = (Inr u, s')"
  shows "processDistrict env rid d s = (Inr u, s')"
  using assms by (simp add: processDistrict_def bnd_def log_entry_def try_catch_def)

lemma department_contacts:
  "list_all (\<lambda>c. confidence c = Some 60) (map department_contact es)"
  by (simp add: list_all_iff department_contact_def)

lemma invocations_gives_up:
  "invocations (retry_events js (spread DEFAULT_OPTIONS RetryConfigs_network) 0 es @ [Invoked, Logger_error])
     = Suc (length es)"
  by (simp add: invocations_append invocations_retry_events) (simp add: invocations_def)

text \<open>
  Claim C5, as amended. A CAPTCHA_DETECTED error of the scraper is retried like any other
  error (\<open>RetryConfigs.network\<close>: five retries). When every one of the six attempts
  raises and the last error has the message CAPTCHA_DETECTED, the acquisition raises
  nothing: the scraper has been invoked six times, and the contacts are the department
  addresses of the domain, each with confidence 60 (none without a domain). A district
  whose pipeline then raises nothing ends with status \<open>completed\<close>.
\<close>

theorem blocked_fallback:
  assumes "truthy (website d)"
    and "fails_with (scrapeDistrict env d) (world s) (es @ [e])" and "length es = 5"
    and "list_all (\<lambda>x. \<not> is_nullish x) (es @ [e])"
    and "get_message e = Inr (Some ''CAPTCHA_DETECTED'')"
  shows "(\<exists>t found s1. acquire env d domain s = (Inr found, s1) \<and>
            found = (case domain of None \<Rightarrow> [] | Some host \<Rightarrow> if host = [] then []
                       else map department_contact (generateDepartmentEmails host)) \<and>
            list_all (\<lambda>c. confidence c = Some 60) found \<and>
            journal s1 = journal s @ [Scrape (district_id d) t, Captcha_detected (name d)] \<and>
            invocations t = 6 \<and>
            world s1 = world_after (scrapeDistrict env d) 6 (world s) \<and> store s1 = store s) \<and>
         (\<not> isDistrictProcessed rid (district_id d) (store s0) \<and>
          pipeline env rid d (s0 \<lparr> journal := journal s0 @ [District_start (district_id d)] \<rparr>)
            = (Inr u, s') \<longrightarrow>
          processDistrict env rid d s0 = (Inr u, s') \<and>
          (\<exists>d'. map_of (districts (store s')) (district_id d) = Some d' \<and> status d' = Completed))"
proof (intro conjI impI)
  let ?found = "case domain of None \<Rightarrow> [] | Some host \<Rightarrow> if host = [] then []
                       else map department_contact (generateDepartmentEmails host)"
  have "list_all (\<lambda>c. confidence c = Some 60) ?found"
    by (simp add: department_contacts split: option.splits)
  then show "\<exists>t found s1. acquire env d domain s = (Inr found, s1) \<and>
            found = ?found \<and>
            list_all (\<lambda>c. confidence c = Some 60) found \<and>
            journal s1 = journal s @ [Scrape (district_id d) t, Captcha_detected (name d)] \<and>
            invocations t = 6 \<and>
            world s1 = world_after (scrapeDistrict env d) 6 (world s) \<and> store s1 = store s"
    using acquire_captcha [OF assms, of domain] invocations_gives_up [of "runtime env" es] assms(3)
    by simp
next
  assume *: "\<not> isDistrictProcessed rid (district_id d) (store s0) \<and>
          pipeline env rid d (s0 \<lparr> journal := journal s0 @ [District_start (district_id d)] \<rparr>)
            = (Inr u, s')"
  then show "processDistrict env rid d s0 = (Inr u, s')"
    by (simp add: processDistrict_pipeline)
  from * show "\<exists>d'. map_of (districts (store s')) (district_id d) = Some d' \<and> status d' = Completed"
    using pipeline_completed by blast
qed

theorem blocked_fallback_witness:
  "(\<exists>t s1. acquire captcha_env district_4 (Some ''d4.example.org'')
              (idle (initializeRun ''run_new'' 0 2 five_districts) 0)
            = (Inr (map department_contact (generateDepartmentEmails ''d4.example.org'')), s1) \<and>
          journal s1 = [Scrape ''4'' t, Captcha_detected ''District 4''] \<and> invocations t = 6) \<and>
   fst (processDistrict captcha_env ''run_new'' district_4
          (idle (initializeRun ''run_new'' 0 2 five_districts) 0)) = Inr () \<and>
   (\<exists>d'. map_of (districts (store (snd (processDistrict captcha_env ''run_new'' district_4
                    (idle (initializeRun ''run_new'' 0 2 five_districts) 0))))) ''4'' = Some d' \<and>
         status d' = Completed)"
proof -
  let ?s = "idle (initializeRun ''run_new'' 0 2 five_districts) (0::int)"
  let ?c = "Error_instance ''CAPTCHA_DETECTED'' []"
  let ?p = "pipeline captcha_env ''run_new'' district_4
              (?s \<lparr> journal := journal ?s @ [District_start (district_id district_4)] \<rparr>)"
  have 1: "truthy (website district_4)"
    by code_simp
  have 2: "fails_with (scrapeDistrict captcha_env district_4) (world ?s) (replicate 5 ?c @ [?c])"
    by code_simp
  have 3: "length (replicate 5 ?c) = 5"
    by simp
  have 4: "list_all (\<lambda>x. \<not> is_nullish x) (replicate 5 ?c @ [?c])"
    by code_simp
  have 5: "get_message ?c = Inr (Some ''CAPTCHA_DETECTED'')"
    by simp
  have 6: "\<not> isDistrictProcessed ''run_new'' (district_id district_4) (store ?s)"
    by code_simp
  have "fst ?p = Inr ()"
    by code_simp
  then have 7: "?p = (Inr (), snd ?p)"
    by (metis prod.collapse)
  have k: "district_id district_4 = ''4''" "name district_4 = ''District 4''" "journal ?s = []"
    by (simp_all add: district_4_def a_district_def idle_def)
  note th = blocked_fallback [OF 1 2 3 4 5, where domain = "Some ''d4.example.org''"
      and rid = "''run_new''" and ?s0.0 = ?s and u = "()" and s' = "snd ?p"]
  from th obtain t s1 where
    "acquire captcha_env district_4 (Some ''d4.example.org'') ?s
       = (Inr (map department_contact (generateDepartmentEmails ''d4.example.org'')), s1)"
    "journal s1 = [Scrape ''4'' t, Captcha_detected ''District 4'']" "invocations t = 6"
    unfolding k by auto
  moreover from th 6 7 have
    "processDistrict captcha_env ''run_new'' district_4 ?s = (Inr (), snd ?p)"
    "\<exists>d'. map_of (districts (store (snd ?p))) ''4'' = Some d' \<and> status d' = Completed"
    unfolding k by blast+
  ultimately show ?thesis
    by auto
qed

text \<open>
  Claim C5 as stated fails: the first attempt of the scraper raises CAPTCHA_DETECTED and
  the scraper is invoked five more times, after pauses of 1, 2, 4, 8 and 16 seconds.
\<close>

theorem blocked_fallback_counterexample:
  "fst (scrapeDistrict captcha_env district_4 0) = Inl (Error_instance ''CAPTCHA_DETECTED'' []) \<and>
   journal (snd (acquire captcha_env district_4 (Some ''d4.example.org'') (idle five_districts 0))) =
     [Scrape ''4''
        [Invoked, Logger_warn, Called_onRetry (Error_instance ''CAPTCHA_DETECTED'' []) 1, Slept 1000,
         Invoked, Logger_warn, Called_onRetry (Error_instance ''CAPTCHA_DETECTED'' []) 2, Slept 2000,
         Invoked, Logger_warn, Called_onRetry (Error_instance ''CAPTCHA_DETECTED'' []) 3, Slept 4000,
         Invoked, Logger_warn, Called_onRetry (Error_instance ''CAPTCHA_DETECTED'' []) 4, Slept 8000,
         Invoked, Logger_warn, Called_onRetry (Error_instance ''CAPTCHA_DETECTED'' []) 5, Slept 16000,
         Invoked, Logger_error],
      Captcha_detected ''District 4''] \<and>
   invocations (fst (snd (withRetry plain_engine (scrapeDistrict captcha_env district_4) RetryConfigs_network 0))) = 6"
  by code_simp

subsection \<open>A district whose pipeline raises\<close>

lemma started_processBatch:
  "started (journal (processBatch env rid ds s)) = started (journal s) @ map district_id ds"
proof (induction ds arbitrary: s)
  case Nil
  then show ?case by simp
next
  case (Cons d ds)
  obtain r s' where p: "processDistrict env rid d s = (r, s')"
    by (cases "processDistrict env rid d s")
  have 1: "started (journal s') = started (journal s) @ [district_id d]"
    using p by (rule processDistrict_started)
  let ?s = "case r of Inr u \<Rightarrow> s'
     | Inl e \<Rightarrow> s' \<lparr> journal := journal s' @ [Console_error (name d)] \<rparr>"
  have 2: "started (journal ?s) = started (journal s')"
    by (cases r) auto
  have "started (journal (processBatch env rid ds ?s)) = started (journal ?s) @ map district_id ds"
    by (rule Cons.IH)
  then show ?case
    using 1 2 p by (cases r) auto
qed

lemma started_batches:
  "started (journal (batches env rid ds s)) = started (journal s) @ map district_id ds"
proof (induction env rid ds s rule: batches.induct)
  case (1 env rid ds s)
  show ?case
  proof (cases "ds = []")
    case True
    then show ?thesis by (subst batches.simps) simp
  next
    case False
    let ?s1 = "processBatch env rid (take 50 ds) s"
    let ?s2 = "if getProgress rid (store ?s1) \<noteq> None
               then ?s1 \<lparr> journal := journal ?s1 @ [Progress_line] \<rparr> else ?s1"
    let ?s3 = "?s2 \<lparr> world := timer env 5000 (world ?s2), journal := journal ?s2 @ [Pause 5000] \<rparr>"
    have b: "started (journal ?s1) = started (journal s) @ map district_id (take 50 ds)"
      by (rule started_processBatch)
    have s2: "started (journal ?s2) = started (journal ?s1)" by simp
    have s3: "started (journal ?s3) = started (journal ?s1)" by simp
    have tk: "map district_id (take 50 ds) @ map district_id (drop 50 ds) = map district_id ds"
      by (simp flip: map_append)
    show ?thesis
    proof (cases "drop 50 ds = []")
      case True
      have "batches env rid ds s = ?s2"
        using False True by (subst batches.simps) (simp add: Let_def)
      then show ?thesis using b s2 tk True by simp
    next
      case nonempty: False
      have eq: "batches env rid ds s = batches env rid (drop 50 ds) ?s3"
        using False nonempty by (subst batches.simps) (simp add: Let_def)
      have ih: "started (journal (batches env rid (drop 50 ds) ?s3)) =
         started (journal ?s3) @ map district_id (drop 50 ds)"
        using False nonempty by (intro "1.IH") auto
      have "started (journal (batches env rid ds s)) =
         started (journal ?s1) @ map district_id (drop 50 ds)"
        using ih unfolding eq s3 .
      then show ?thesis
        using b tk by simp
    qed
  qed
qed

lemma pipeline_documents:
  "pipeline env rid d s = (r, s') \<Longrightarrow> same_keys (store s) (store s')"
  using preserves_step [OF honours_pipeline [OF honours_keeps_documents, of d env rid]]
  by (simp add: keeps_documents_def)

lemma same_keys_documents:
  assumes "same_keys db db'"
  shows "getProgress rid db \<noteq> None \<Longrightarrow> getProgress rid db' \<noteq> None"
    and "map_of (districts db) k \<noteq> None \<Longrightarrow> map_of (districts db') k \<noteq> None"
  using assms
  by (auto simp: same_keys_def getProgress_def map_of_eq_None_iff simp flip: set_map)

lemma record_failure_done:
  assumes "getProgress rid (store s) = Some p" "map_of (districts (store s)) (district_id d) = Some d0"
  shows "\<exists>s'. record_failure env rid d e s = (Inr (), s') \<and>
     journal s' = journal s @ [District_error (district_id d) (error_message e)] \<and>
     world s' = world s \<and>
     (\<exists>d'. map_of (districts (store s')) (district_id d) = Some d' \<and> status d' = Failed \<and>
           (error_message e \<noteq> [] \<longrightarrow> error d' = Some (error_message e))) \<and>
     district_logs (store s') = district_logs (store s) @
       [\<lparr> log_districtId = district_id d, log_districtName = name d, log_runId = rid,
          log_status = Log_failed, log_startedAt = time_of env (world s),
          log_completedAt = time_of env (world s), duration = 0, contactsFound = 0,
          log_error = Some (error_message e), details = None \<rparr>] \<and>
     (\<exists>p'. getProgress rid (store s') = Some p' \<and>
           failed (stats p') = failed (stats p) + 1 \<and>
           processing (stats p') = processing (stats p) - 1 \<and>
           errors p' = arrayUnion \<lparr> err_districtId = district_id d, err_districtName = name d,
                                    err_error = error_message e,
                                    err_timestamp = time_of env (world s) \<rparr> (errors p))"
  using assms
  by (simp add: record_failure_def bnd_def log_entry_def on_store_def failDistrict_def
      update_progress_def doc_update_def updateDistrictStatus_def Let_def getProgress_def
      update_conv')

lemma started_run_body:
  assumes "initialize env s = (Inr u, sa)" "loadOrGetDistricts env sa = (Inr ds, sb)"
    and "progressTracker sb = Some rid"
  shows "started (journal (snd (run_body env s))) = started (journal s) @
     map district_id
       (filter (\<lambda>d. district_id d \<in> set (getUnprocessedDistricts rid
            (initializeRun rid (time_of env (world sb)) (int (length ds)) (store sb)))) ds)"
proof -
  let ?s1 = "sb \<lparr> store := initializeRun rid (time_of env (world sb)) (int (length ds)) (store sb) \<rparr>"
  let ?todo = "filter (\<lambda>d. district_id d \<in> set (getUnprocessedDistricts rid (store ?s1))) ds"
  let ?s2 = "batches env rid ?todo ?s1"
  have j: "journal sb = journal s"
    using initialize_frame [OF assms(1)] loadOrGetDistricts_frame [OF assms(2)] by simp
  have "journal (snd (run_body env s)) =
     journal (snd (bnd (on_store env (completeRun rid))
        (\<lambda>u s3. call (exportResults env (store s3)) s3) ?s2))"
    using assms by (simp add: run_body_def bnd_def Let_def)
  also have "\<dots> = journal ?s2"
    by (auto simp: bnd_def on_store_journal call_frame split: prod.splits sum.splits
        dest: arg_cong [where f = "\<lambda>x. journal (snd x)"])
  finally show ?thesis
    using started_batches [of env rid ?todo ?s1] j by simp
qed

lemma processDistrict_failure:
  assumes "\<not> isDistrictProcessed rid (district_id d) (store s)"
    and "pipeline env rid d (s \<lparr> journal := journal s @ [District_start (district_id d)] \<rparr>) = (Inl e, s1)"
  shows "processDistrict env rid d s = record_failure env rid d e s1"
  using assms by (simp add: processDistrict_def bnd_def log_entry_def try_catch_def)

text \<open>
  Claim C6. The processing begins for every district of a batch, of a sequence of batches
  and of a run, in order, whatever the processing of the districts before has raised.
  When the pipeline of a district raises \<open>e\<close> and the documents of the run and of the
  district exist, \<open>processDistrict\<close> raises nothing: the district has the status
  \<open>failed\<close> and the message of \<open>e\<close> (when it is not empty), the log of the run has a
  failed entry with the message, and the run counts one more failed district, with the
  message among its errors.
\<close>

theorem failure_isolation:
  "started (journal (processBatch env rid ds s)) = started (journal s) @ map district_id ds \<and>
   started (journal (batches env rid ds s)) = started (journal s) @ map district_id ds \<and>
   (initialize env s = (Inr u, sa) \<and> loadOrGetDistricts env sa = (Inr ds, sb) \<and>
    progressTracker sb = Some rid \<longrightarrow>
    started (journal (snd (run_body env s))) = started (journal s) @
      map district_id
        (filter (\<lambda>d. district_id d \<in> set (getUnprocessedDistricts rid
             (initializeRun rid (time_of env (world sb)) (int (length ds)) (store sb)))) ds)) \<and>
   (\<not> isDistrictProcessed rid (district_id d) (store s) \<and>
    getProgress rid (store s) \<noteq> None \<and> map_of (districts (store s)) (district_id d) \<noteq> None \<and>
    pipeline env rid d (s \<lparr> journal := journal s @ [District_start (district_id d)] \<rparr>) = (Inl e, s1) \<longrightarrow>
    (\<exists>s' d' p1 p'.
       processDistrict env rid d s = (Inr (), s') \<and>
       journal s' = journal s1 @ [District_error (district_id d) (error_message e)] \<and>
       map_of (districts (store s')) (district_id d) = Some d' \<and> status d' = Failed \<and>
       (error_message e \<noteq> [] \<longrightarrow> error d' = Some (error_message e)) \<and>
       district_logs (store s') = district_logs (store s1) @
         [\<lparr> log_districtId = district_id d, log_districtName = name d, log_runId = rid,
            log_status = Log_failed, log_startedAt = time_of env (world s1),
            log_completedAt = time_of env (world s1), duration = 0, contactsFound = 0,
            log_error = Some (error_message e), details = None \<rparr>] \<and>
       getProgress rid (store s1) = Some p1 \<and> getProgress rid (store s') = Some p' \<and>
       failed (stats p') = failed (stats p1) + 1 \<and>
       errors p' = arrayUnion \<lparr> err_districtId = district_id d, err_districtName = name d,
                                err_error = error_message e,
                                err_timestamp = time_of env (world s1) \<rparr> (errors p1)))"
proof (intro conjI impI)
  show "started (journal (processBatch env rid ds s)) = started (journal s) @ map district_id ds"
    by (rule started_processBatch)
  show "started (journal (batches env rid ds s)) = started (journal s) @ map district_id ds"
    by (rule started_batches)
next
  assume "initialize env s = (Inr u, sa) \<and> loadOrGetDistricts env sa = (Inr ds, sb) \<and>
    progressTracker sb = Some rid"
  then show "started (journal (snd (run_body env s))) = started (journal s) @
      map district_id
        (filter (\<lambda>d. district_id d \<in> set (getUnprocessedDistricts rid
             (initializeRun rid (time_of env (world sb)) (int (length ds)) (store sb)))) ds)"
    using started_run_body by blast
next
  let ?s0 = "s \<lparr> journal := journal s @ [District_start (district_id d)] \<rparr>"
  assume *: "\<not> isDistrictProcessed rid (district_id d) (store s) \<and>
    getProgress rid (store s) \<noteq> None \<and> map_of (districts (store s)) (district_id d) \<noteq> None \<and>
    pipeline env rid d ?s0 = (Inl e, s1)"
  then have k: "same_keys (store s) (store s1)"
    using pipeline_documents [of env rid d ?s0 "Inl e" s1] by simp
  with * obtain p1 d0 where
    docs: "getProgress rid (store s1) = Some p1" "map_of (districts (store s1)) (district_id d) = Some d0"
    using same_keys_documents [OF k] by blast
  have "processDistrict env rid d s = record_failure env rid d e s1"
    using * by (simp add: processDistrict_failure)
  with record_failure_done [OF docs, of env e] docs(1)
  show "\<exists>s' d' p1 p'.
       processDistrict env rid d s = (Inr (), s') \<and>
       journal s' = journal s1 @ [District_error (district_id d) (error_message e)] \<and>
       map_of (districts (store s')) (district_id d) = Some d' \<and> status d' = Failed \<and>
       (error_message e \<noteq> [] \<longrightarrow> error d' = Some (error_message e)) \<and>
       district_logs (store s') = district_logs (store s1) @
         [\<lparr> log_districtId = district_id d, log_districtName = name d, log_runId = rid,
            log_status = Log_failed, log_startedAt = time_of env (world s1),
            log_completedAt = time_of env (world s1), duration = 0, contactsFound = 0,
            log_error = Some (error_message e), details = None \<rparr>] \<and>
       getProgress rid (store s1) = Some p1 \<and> getProgress rid (store s') = Some p' \<and>
       failed (stats p') = failed (stats p1) + 1 \<and>
       errors p' = arrayUnion \<lparr> err_districtId = district_id d, err_districtName = name d,
                                err_error = error_message e,
                                err_timestamp = time_of env (world s1) \<rparr> (errors p1)"
    by auto
qed

theorem failure_isolation_witness:
  "started (journal (processBatch failing_env ''run_new'' [district_4, district_5]
      (idle (initializeRun ''run_new'' 0 2 five_districts) 0))) = [''4'', ''5''] \<and>
   started (journal (snd (run_body failing_env
      (idle (initializeRun ''run_new'' 0 2 five_districts) 0)))) = [''4'', ''5''] \<and>
   (\<exists>s' d'. processDistrict failing_env ''run_new'' district_4
               (idle (initializeRun ''run_new'' 0 2 five_districts) 0) = (Inr (), s') \<and>
            map_of (districts (store s')) ''4'' = Some d' \<and> status d' = Failed \<and>
            error d' = Some ''Navigation failed'' \<and>
            log_status (last (district_logs (store s'))) = Log_failed \<and>
            log_error (last (district_logs (store s'))) = Some ''Navigation failed'') \<and>
   map (\<lambda>(k, d). (k, status d))
     (districts (store (processBatch failing_env ''run_new'' [district_4, district_5]
        (idle (initializeRun ''run_new'' 0 2 five_districts) 0)))) =
     [(''1'', Completed), (''2'', Completed), (''3'', Completed), (''4'', Failed), (''5'', Completed)]"
proof -
  let ?s = "idle (initializeRun ''run_new'' 0 2 five_districts) (0::int)"
  let ?sb = "?s \<lparr> progressTracker := Some ''run_new'' \<rparr>"
  let ?e = "Error_instance ''Navigation failed'' []"
  let ?p = "pipeline failing_env ''run_new'' district_4
              (?s \<lparr> journal := journal ?s @ [District_start (district_id district_4)] \<rparr>)"
  have 1: "initialize failing_env ?s = (Inr (), ?sb)"
    by (simp add: initialize_def bnd_def call_def failing_env_def quiet_env_def)
  have "fst (loadOrGetDistricts failing_env ?sb) = Inr [district_4, district_5]"
    "snd (loadOrGetDistricts failing_env ?sb) = ?sb"
    by code_simp+
  then have 2: "loadOrGetDistricts failing_env ?sb = (Inr [district_4, district_5], ?sb)"
    by (metis prod.collapse)
  have 3: "progressTracker ?sb = Some ''run_new''"
    by simp
  have 4: "\<not> isDistrictProcessed ''run_new'' (district_id district_4) (store ?s)"
    by code_simp
  have 5: "getProgress ''run_new'' (store ?s) \<noteq> None"
    by code_simp
  have 6: "map_of (districts (store ?s)) (district_id district_4) \<noteq> None"
    by code_simp
  have "fst ?p = Inl ?e"
    by code_simp
  then have 7: "?p = (Inl ?e, snd ?p)"
    by (metis prod.collapse)
  have k: "district_id district_4 = ''4''" "journal ?s = []" "error_message ?e = ''Navigation failed''"
    "map district_id
      (filter (\<lambda>d. district_id d \<in> set (getUnprocessedDistricts ''run_new''
           (initializeRun ''run_new'' (time_of failing_env (world ?sb))
              (int (length [district_4, district_5])) (store ?sb)))) [district_4, district_5])
     = [''4'', ''5'']"
    by code_simp+
  note th = failure_isolation [where env = failing_env and rid = "''run_new''"
      and ds = "[district_4, district_5]" and s = ?s and u = "()" and sa = ?sb and sb = ?sb
      and d = district_4 and e = ?e and ?s1.0 = "snd ?p"]
  from th have a: "started (journal (processBatch failing_env ''run_new'' [district_4, district_5] ?s))
      = [''4'', ''5'']"
    unfolding k by (simp add: district_4_def district_5_def a_district_def idle_def)
  from th 1 2 3 have b: "started (journal (snd (run_body failing_env ?s))) = [''4'', ''5'']"
    unfolding k by (simp add: idle_def)
  from th 4 5 6 7 obtain s' d' where
    "processDistrict failing_env ''run_new'' district_4 ?s = (Inr (), s')"
    "map_of (districts (store s')) ''4'' = Some d'" "status d' = Failed"
    "error d' = Some ''Navigation failed''"
    "district_logs (store s') = district_logs (store (snd ?p)) @
         [\<lparr> log_districtId = ''4'', log_districtName = name district_4, log_runId = ''run_new'',
            log_status = Log_failed, log_startedAt = time_of failing_env (world (snd ?p)),
            log_completedAt = time_of failing_env (world (snd ?p)), duration = 0, contactsFound = 0,
            log_error = Some ''Navigation failed'', details = None \<rparr>]"
    unfolding k by blast
  then have c: "\<exists>s' d'. processDistrict failing_env ''run_new'' district_4 ?s = (Inr (), s') \<and>
            map_of (districts (store s')) ''4'' = Some d' \<and> status d' = Failed \<and>
            error d' = Some ''Navigation failed'' \<and>
            log_status (last (district_logs (store s'))) = Log_failed \<and>
            log_error (last (district_logs (store s'))) = Some ''Navigation failed''"
    by auto
  have d: "map (\<lambda>(k, d). (k, status d))
     (districts (store (processBatch failing_env ''run_new'' [district_4, district_5] ?s))) =
     [(''1'', Completed), (''2'', Completed), (''3'', Completed), (''4'', Failed), (''5'', Completed)]"
    by code_simp
  from a b c d show ?thesis
    by blast
qed

end
